theory Spec2Isabelle
  imports Complex_Main "HOL-Library.Monad_Syntax"
begin

section \<open>Animation engine (class CVAnimations)\<close>

subsection \<open>Particles and the per-tick update\<close>

text \<open>
  A particle as \<open>createParticles\<close> pushes it. A field holds the value of a JavaScript
  number as a real number; \<open>p_color\<close> holds the alpha of the \<open>rgba(255, 215, 0, alpha)\<close>
  colour string. The tick is given twice: first with exact arithmetic on these values,
  which is what the position and the reflection of a particle are stated over, then
  with every operation rounded to a double as JavaScript does (\<open>update_particle_double\<close>
  and \<open>particles_forEach_double\<close> below), which is what the speed limit and the
  connecting lines are stated over.
\<close>

record particle =
  p_x :: real
  p_y :: real
  p_vx :: real
  p_vy :: real
  p_size :: real
  p_opacity :: real
  p_color :: real

text \<open>Canvas drawing commands issued during one tick, in call order.\<close>

datatype draw =
    ClearRect real real real real
  | Arc real real real real
  | Line real real real real real

text \<open>
  The body of the \<open>forEach\<close> callback of \<open>animateParticles\<close> up to the speed limit, in
  its four steps: integration, reflection, mouse attraction, clamping. The reflection
  only inverts a velocity component; no step after the integration writes the position.
\<close>

definition integrate :: "particle \<Rightarrow> particle" where
  "integrate p = p\<lparr>p_x := p_x p + p_vx p, p_y := p_y p + p_vy p\<rparr>"

definition reflect :: "real \<Rightarrow> real \<Rightarrow> particle \<Rightarrow> particle" where
  "reflect cw ch p =
     (let p1 = (if p_x p < 0 \<or> p_x p > cw then p\<lparr>p_vx := p_vx p * (- 1)\<rparr> else p)
      in if p_y p1 < 0 \<or> p_y p1 > ch then p1\<lparr>p_vy := p_vy p1 * (- 1)\<rparr> else p1)"

definition attract :: "real \<times> real \<Rightarrow> particle \<Rightarrow> particle" where
  "attract m p =
     (let dx = fst m - p_x p;
          dy = snd m - p_y p;
          distance = sqrt (dx * dx + dy * dy)
      in if distance < 100
         then (let force = (100 - distance) / 100
               in p\<lparr>p_vx := p_vx p + dx * force * (1 / 10000),
                    p_vy := p_vy p + dy * force * (1 / 10000)\<rparr>)
         else p)"

definition limit_speed :: "particle \<Rightarrow> particle" where
  "limit_speed p =
     (let maxSpeed = 2;
          speed = sqrt (p_vx p * p_vx p + p_vy p * p_vy p)
      in if speed > maxSpeed
         then p\<lparr>p_vx := (p_vx p / speed) * maxSpeed, p_vy := (p_vy p / speed) * maxSpeed\<rparr>
         else p)"

text \<open>The arguments are the mouse position and the canvas width and height.\<close>

definition update_particle :: "real \<times> real \<Rightarrow> real \<Rightarrow> real \<Rightarrow> particle \<Rightarrow> particle" where
  "update_particle m cw ch p = limit_speed (attract m (reflect cw ch (integrate p)))"


text \<open>
  One iteration of the inner \<open>for (let j = index + 1; ...)\<close> loop: the line drawn from
  the current particle to \<open>other\<close>, if any.
\<close>

definition connect :: "particle \<Rightarrow> particle \<Rightarrow> draw option" where
  "connect p other =
     (let dx = p_x p - p_x other;
          dy = p_y p - p_y other;
          distance = sqrt (dx * dx + dy * dy)
      in if distance < 80
         then Some (Line (p_x p) (p_y p) (p_x other) (p_y other) ((80 - distance) / 80 * (2 / 10)))
         else None)"

fun connect_all :: "particle \<Rightarrow> particle list \<Rightarrow> draw list" where
  "connect_all p [] = []"
| "connect_all p (other # rest) =
     (case connect p other of
        Some l \<Rightarrow> l # connect_all p rest
      | None \<Rightarrow> connect_all p rest)"

text \<open>
  The \<open>forEach\<close> over \<open>this.particles\<close>: each particle is updated in place and drawn, then
  connected to the particles after it, which still hold their positions of the previous
  tick.
\<close>

fun particles_forEach ::
  "real \<times> real \<Rightarrow> real \<Rightarrow> real \<Rightarrow> particle list \<Rightarrow> particle list \<times> draw list" where
  "particles_forEach m cw ch [] = ([], [])"
| "particles_forEach m cw ch (p # rest) =
     (let p' = update_particle m cw ch p;
          ds = Arc (p_x p') (p_y p') (p_size p') (p_color p') # connect_all p' rest;
          r = particles_forEach m cw ch rest
      in (p' # fst r, ds @ snd r))"

subsection \<open>The tick in double arithmetic\<close>

text \<open>
  JavaScript numbers are IEEE 754 doubles: every arithmetic operation and \<open>Math.sqrt\<close>
  returns the exact result rounded to the nearest double, ties to the even significand.
  \<open>fl x\<close> is that rounding of the exact result \<open>x\<close>: to 53 significant bits where
  \<open>x\<close> is in the normal range, to a multiple of \<open>2\<^sup>-\<^sup>1\<^sup>0\<^sup>7\<^sup>4\<close> below it (gradual
  underflow). \<open>None\<close> stands for a result beyond the largest double, where JavaScript
  goes on with \<open>Infinity\<close> and \<open>NaN\<close>, which are not values here. The sign of a zero is
  not kept: no operation of the tick tells the two zeros apart.
\<close>

definition round_even :: "real \<Rightarrow> int" where
  "round_even y =
     (let f = \<lfloor>y\<rfloor>; t = y - of_int f
      in if t < 1 / 2 then f else if 1 / 2 < t then f + 1 else if even f then f else f + 1)"

definition fl :: "real \<Rightarrow> real option" where
  "fl x =
     (if x = 0 then Some 0
      else (let e = max \<lfloor>log 2 \<bar>x\<bar>\<rfloor> (- 1022);
                q = 2 powi (e - 52);
                r = q * of_int (round_even (x / q))
            in if 2 powi 1024 \<le> \<bar>r\<bar> then None else Some r))"

text \<open>
  The unit roundoff of doubles, half the spacing of the subnormal doubles, and the
  doubles the literals \<open>0.2\<close> and \<open>0.0001\<close> denote.
\<close>

definition unit_roundoff :: real where
  "unit_roundoff = 1 / 2 ^ 53"

definition underflow_error :: real where
  "underflow_error = 1 / 2 ^ 1075"

definition double_0_2 :: real where
  "double_0_2 = 3602879701896397 / 2 ^ 54"

definition double_0_0001 :: real where
  "double_0_0001 = 7378697629483821 / 2 ^ 66"

text \<open>\<open>Math.sqrt(dx * dx + dy * dy)\<close>.\<close>

definition sqrt_sum_squares :: "real \<Rightarrow> real \<Rightarrow> real option" where
  "sqrt_sum_squares dx dy =
     do { xx \<leftarrow> fl (dx * dx);
          yy \<leftarrow> fl (dy * dy);
          s \<leftarrow> fl (xx + yy);
          fl (sqrt s) }"

definition integrate_double :: "particle \<Rightarrow> particle option" where
  "integrate_double p =
     do { x \<leftarrow> fl (p_x p + p_vx p);
          y \<leftarrow> fl (p_y p + p_vy p);
          Some (p\<lparr>p_x := x, p_y := y\<rparr>) }"

definition reflect_double :: "real \<Rightarrow> real \<Rightarrow> particle \<Rightarrow> particle option" where
  "reflect_double cw ch p =
     do { vx \<leftarrow> (if p_x p < 0 \<or> p_x p > cw then fl (p_vx p * (- 1)) else Some (p_vx p));
          vy \<leftarrow> (if p_y p < 0 \<or> p_y p > ch then fl (p_vy p * (- 1)) else Some (p_vy p));
          Some (p\<lparr>p_vx := vx, p_vy := vy\<rparr>) }"

definition attract_double :: "real \<times> real \<Rightarrow> particle \<Rightarrow> particle option" where
  "attract_double m p =
     do { dx \<leftarrow> fl (fst m - p_x p);
          dy \<leftarrow> fl (snd m - p_y p);
          distance \<leftarrow> sqrt_sum_squares dx dy;
          if distance < 100
          then do { d \<leftarrow> fl (100 - distance);
                    force \<leftarrow> fl (d / 100);
                    fx \<leftarrow> fl (dx * force);
                    ax \<leftarrow> fl (fx * double_0_0001);
                    vx \<leftarrow> fl (p_vx p + ax);
                    fy \<leftarrow> fl (dy * force);
                    ay \<leftarrow> fl (fy * double_0_0001);
                    vy \<leftarrow> fl (p_vy p + ay);
                    Some (p\<lparr>p_vx := vx, p_vy := vy\<rparr>) }
          else Some p }"

definition limit_speed_double :: "particle \<Rightarrow> particle option" where
  "limit_speed_double p =
     do { speed \<leftarrow> sqrt_sum_squares (p_vx p) (p_vy p);
          if speed > 2
          then do { qx \<leftarrow> fl (p_vx p / speed);
                    vx \<leftarrow> fl (qx * 2);
                    qy \<leftarrow> fl (p_vy p / speed);
                    vy \<leftarrow> fl (qy * 2);
                    Some (p\<lparr>p_vx := vx, p_vy := vy\<rparr>) }
          else Some p }"

definition update_particle_double ::
  "real \<times> real \<Rightarrow> real \<Rightarrow> real \<Rightarrow> particle \<Rightarrow> particle option" where
  "update_particle_double m cw ch p =
     do { p1 \<leftarrow> integrate_double p;
          p2 \<leftarrow> reflect_double cw ch p1;
          p3 \<leftarrow> attract_double m p2;
          limit_speed_double p3 }"

text \<open>
  The inner \<open>for\<close> loop: the distance from the particle just updated to a later one,
  the opacity written into the stroke style, and the line drawn if the distance is
  below 80.
\<close>

definition distance_double :: "particle \<Rightarrow> particle \<Rightarrow> real option" where
  "distance_double p other =
     do { dx \<leftarrow> fl (p_x p - p_x other);
          dy \<leftarrow> fl (p_y p - p_y other);
          sqrt_sum_squares dx dy }"

definition opacity_double :: "real \<Rightarrow> real option" where
  "opacity_double distance =
     do { d \<leftarrow> fl (80 - distance);
          r \<leftarrow> fl (d / 80);
          fl (r * double_0_2) }"

definition connect_double :: "particle \<Rightarrow> particle \<Rightarrow> draw list option" where
  "connect_double p other =
     do { distance \<leftarrow> distance_double p other;
          if distance < 80
          then do { a \<leftarrow> opacity_double distance;
                    Some [Line (p_x p) (p_y p) (p_x other) (p_y other) a] }
          else Some [] }"

fun connect_all_double :: "particle \<Rightarrow> particle list \<Rightarrow> draw list option" where
  "connect_all_double p [] = Some []"
| "connect_all_double p (other # rest) =
     do { l \<leftarrow> connect_double p other;
          ls \<leftarrow> connect_all_double p rest;
          Some (l @ ls) }"

fun particles_forEach_double ::
  "real \<times> real \<Rightarrow> real \<Rightarrow> real \<Rightarrow> particle list \<Rightarrow> (particle list \<times> draw list) option" where
  "particles_forEach_double m cw ch [] = Some ([], [])"
| "particles_forEach_double m cw ch (p # rest) =
     do { p' \<leftarrow> update_particle_double m cw ch p;
          ls \<leftarrow> connect_all_double p' rest;
          r \<leftarrow> particles_forEach_double m cw ch rest;
          Some (p' # fst r, Arc (p_x p') (p_y p') (p_size p') (p_color p') # ls @ snd r) }"

text \<open>
  Values far below the overflow threshold. The coordinates on a canvas, the speeds the
  clamping leaves and the mouse coordinates are of this kind.
\<close>

definition moderate :: "real \<Rightarrow> bool" where
  "moderate x = (\<bar>x\<bar> \<le> 2 ^ 100)"

definition moderate_particle :: "particle \<Rightarrow> bool" where
  "moderate_particle p =
     (moderate (p_x p) \<and> moderate (p_y p) \<and> moderate (p_vx p) \<and> moderate (p_vy p))"

subsection \<open>Typewriter effects\<close>

text \<open>
  The element a typewriter effect works on: its text content (a list of code units of
  any type \<open>'c\<close>), its class list and the one style property the effect sets.
\<close>

record 'c typed_element =
  textContent :: "'c list"
  te_classList :: "string list"
  borderRight :: string

definition te_classList_add :: "string \<Rightarrow> 'c typed_element \<Rightarrow> 'c typed_element" where
  "te_classList_add c el =
     (if c \<in> set (te_classList el) then el else el\<lparr>te_classList := te_classList el @ [c]\<rparr>)"

text \<open>
  The closure \<open>typing\<close> of \<open>typeWriter\<close>, one call per timer. The result is the element
  once the chain of timers has ended, with the delays of the timers the chain set.
\<close>

function typeWriter_typing ::
  "'c list \<Rightarrow> nat \<Rightarrow> nat \<Rightarrow> 'c typed_element \<Rightarrow> 'c typed_element \<times> nat list" where
  "typeWriter_typing text speed i el =
     (if i < length text
      then (let r = typeWriter_typing text speed (Suc i)
                      (el\<lparr>textContent := textContent el @ [text ! i]\<rparr>)
            in (fst r, speed # snd r))
      else (te_classList_add ''typing-complete'' el, []))"
  by pat_completeness auto
termination
  by (relation "measure (\<lambda>(text, speed, i, el). length text - i)") auto

declare typeWriter_typing.simps [simp del]

definition typeWriter ::
  "bool \<Rightarrow> 'c typed_element \<Rightarrow> 'c list \<Rightarrow> nat \<Rightarrow> 'c typed_element \<times> nat list" where
  "typeWriter isReducedMotion element text speed =
     (if isReducedMotion then (element\<lparr>textContent := text\<rparr>, [])
      else (let r = typeWriter_typing text speed 0 (element\<lparr>textContent := []\<rparr>)
            in (fst r, 1000 # snd r)))"

text \<open>The closure \<open>typing\<close> of \<open>typeText\<close>; its last timer removes the caret border.\<close>

function typeText_typing ::
  "'c list \<Rightarrow> nat \<Rightarrow> nat \<Rightarrow> 'c typed_element \<Rightarrow> 'c typed_element \<times> nat list" where
  "typeText_typing text speed i el =
     (if i < length text
      then (let r = typeText_typing text speed (Suc i)
                      (el\<lparr>textContent := textContent el @ [text ! i]\<rparr>)
            in (fst r, speed # snd r))
      else (el\<lparr>borderRight := ''none''\<rparr>, [1000]))"
  by pat_completeness auto
termination
  by (relation "measure (\<lambda>(text, speed, i, el). length text - i)") auto

declare typeText_typing.simps [simp del]

definition typeText :: "bool \<Rightarrow> 'c typed_element \<Rightarrow> 'c typed_element \<times> nat list" where
  "typeText isReducedMotion element =
     (if isReducedMotion then (element, [])
      else (let text = textContent element
            in typeText_typing text 30 0
                 (element\<lparr>textContent := [], borderRight := ''2px solid var(--color-accent)''\<rparr>)))"

subsection \<open>Construction and initialisation\<close>

datatype js_error = TypeError string

text \<open>The inline style the staggered fade-in of \<open>setupTextAnimations\<close> writes.\<close>

record item_style =
  st_opacity :: string
  st_transform :: string
  st_transition :: string

text \<open>
  What the constructor reads from the browser: the media query, the viewport, the
  values \<open>Math.random\<close> returns (the \<open>k\<close>-th call gives \<open>random k\<close>) and the results
  of the selector queries of the setup methods.
\<close>

record 'c page =
  prefersReducedMotion :: bool
  innerWidth :: real
  innerHeight :: real
  random :: "nat \<Rightarrow> real"
  nameElement :: "'c typed_element option"
  contactItems :: "item_style list"
  cards :: nat
  buttons :: nat
  interactiveElements :: nat
  descriptions :: "'c typed_element list"

text \<open>
  The fields of a \<open>CVAnimations\<close> object, with what its methods leave in the browser:
  the draw commands of the last tick, the pending animation-frame requests, the delay
  of every timer set, the event listeners added, the custom cursor, the elements under
  the typing observer and the page elements it wrote.
\<close>

record 'c animations =
  isReducedMotion :: bool
  particles :: "particle list"
  mouse :: "real \<times> real"
  canvas :: "(real \<times> real) option"
  drawn :: "draw list"
  animationFrames :: nat
  timeouts :: "nat list"
  listeners :: "string list"
  customCursor :: bool
  bodyCursor :: string
  observed :: "nat list"
  dom :: "'c page"

type_synonym 'c outcome = "'c animations \<times> js_error option"

text \<open>Statement sequencing: an exception skips what follows and keeps the writes made.\<close>

definition and_then :: "'c outcome \<Rightarrow> ('c animations \<Rightarrow> 'c outcome) \<Rightarrow> 'c outcome" where
  "and_then r f = (case snd r of None \<Rightarrow> f (fst r) | Some e \<Rightarrow> r)"

definition resizeCanvas :: "'c animations \<Rightarrow> 'c outcome" where
  "resizeCanvas a =
     (case canvas a of
        None \<Rightarrow> (a, Some (TypeError ''this.canvas is undefined''))
      | Some c \<Rightarrow> (a\<lparr>canvas := Some (innerWidth (dom a), innerHeight (dom a))\<rparr>, None))"

definition new_particle :: "(nat \<Rightarrow> real) \<Rightarrow> real \<Rightarrow> real \<Rightarrow> nat \<Rightarrow> particle" where
  "new_particle rnd cw ch i =
     \<lparr>p_x = rnd (7 * i) * cw,
      p_y = rnd (7 * i + 1) * ch,
      p_vx = (rnd (7 * i + 2) - 1 / 2) * (1 / 2),
      p_vy = (rnd (7 * i + 3) - 1 / 2) * (1 / 2),
      p_size = rnd (7 * i + 4) * 2 + 1,
      p_opacity = rnd (7 * i + 5) * (1 / 2) + 1 / 10,
      p_color = rnd (7 * i + 6) * (3 / 10) + 1 / 10\<rparr>"

text \<open>
  \<open>this.canvas\<close> is read in the loop body only: with no canvas the first iteration
  throws, and a loop of no iteration returns.
\<close>

definition createParticles :: "'c animations \<Rightarrow> 'c outcome" where
  "createParticles a =
     (let particleCount = min 50 \<lfloor>innerWidth (dom a) / 20\<rfloor>
      in case canvas a of
           None \<Rightarrow>
             (if 0 < particleCount then (a, Some (TypeError ''this.canvas is undefined''))
              else (a, None))
         | Some c \<Rightarrow>
             (a\<lparr>particles := particles a @
                   map (new_particle (random (dom a)) (fst c) (snd c)) [0..<nat particleCount]\<rparr>,
              None))"

text \<open>
  One tick. \<open>requestAnimationFrame\<close> asks for the next one, so a tick leaves one more
  frame request; each later frame runs \<open>animateParticles\<close> again.
\<close>

definition animateParticles :: "'c animations \<Rightarrow> 'c outcome" where
  "animateParticles a =
     (if isReducedMotion a then (a, None)
      else case canvas a of
             None \<Rightarrow> (a, Some (TypeError ''this.ctx is undefined''))
           | Some c \<Rightarrow>
               (let r = particles_forEach (mouse a) (fst c) (snd c) (particles a)
                in (a\<lparr>particles := fst r,
                       drawn := ClearRect 0 0 (fst c) (snd c) # snd r,
                       animationFrames := animationFrames a + 1\<rparr>, None)))"

text \<open>
  The same method with its arithmetic in doubles; \<open>None\<close> where an operation of
  the tick overflows. The constructor is read with the exact tick: of its first frame
  only the number of particles and of frame requests is used.
\<close>

definition animateParticles_double :: "'c animations \<Rightarrow> 'c outcome option" where
  "animateParticles_double a =
     (if isReducedMotion a then Some (a, None)
      else case canvas a of
             None \<Rightarrow> Some (a, Some (TypeError ''this.ctx is undefined''))
           | Some c \<Rightarrow>
               do { r \<leftarrow> particles_forEach_double (mouse a) (fst c) (snd c) (particles a);
                    Some (a\<lparr>particles := fst r,
                            drawn := ClearRect 0 0 (fst c) (snd c) # snd r,
                            animationFrames := animationFrames a + 1\<rparr>, None) })"

text \<open>
  \<open>document.createElement('canvas')\<close> gives a canvas of 300 by 150, which \<open>resizeCanvas\<close>
  then sets to the viewport.
\<close>

definition setupParticleSystem :: "'c animations \<Rightarrow> 'c outcome" where
  "setupParticleSystem a =
     and_then (and_then (and_then (resizeCanvas (a\<lparr>canvas := Some (300, 150)\<rparr>))
       createParticles) animateParticles)
       (\<lambda>a. (a\<lparr>listeners := listeners a @ [''mousemove'', ''resize'']\<rparr>, None))"

text \<open>
  The timers set here are followed to their end: the page elements hold what they show
  once every timer has fired, and \<open>timeouts\<close> gains the delay of each timer set on the
  way.
\<close>

definition setupTextAnimations :: "'c animations \<Rightarrow> 'c outcome" where
  "setupTextAnimations a =
     (let a1 = (case nameElement (dom a) of
                  None \<Rightarrow> a
                | Some el \<Rightarrow>
                    (let r = typeWriter (isReducedMotion a) el (textContent el) 100
                     in a\<lparr>dom := (dom a)\<lparr>nameElement := Some (fst r)\<rparr>,
                          timeouts := timeouts a @ snd r\<rparr>));
          n = length (contactItems (dom a1))
      in (a1\<lparr>dom := (dom a1)\<lparr>contactItems :=
                  replicate n \<lparr>st_opacity = ''1'', st_transform = ''translateY(0)'',
                               st_transition = ''all 0.6s ease-out''\<rparr>\<rparr>,
              timeouts := timeouts a1 @ map (\<lambda>index. 500 + index * 150) [0..<n]\<rparr>, None))"

definition setupHoverEffects :: "'c animations \<Rightarrow> 'c outcome" where
  "setupHoverEffects a =
     (a\<lparr>listeners := listeners a @
          concat (replicate (cards (dom a)) [''mouseenter'', ''mousemove'', ''mouseleave'']) @
          replicate (buttons (dom a)) ''click''\<rparr>, None)"

definition setupCursorEffects :: "'c animations \<Rightarrow> 'c outcome" where
  "setupCursorEffects a =
     (if innerWidth (dom a) \<le> 768 then (a, None)
      else (a\<lparr>customCursor := True,
              listeners := listeners a @ [''mousemove''] @
                concat (replicate (interactiveElements (dom a)) [''mouseenter'', ''mouseleave'']),
              bodyCursor := ''none''\<rparr>, None))"

definition setupScrollAnimations :: "'c animations \<Rightarrow> 'c outcome" where
  "setupScrollAnimations a = (a\<lparr>listeners := listeners a @ [''scroll'']\<rparr>, None)"

definition setupTypingEffect :: "'c animations \<Rightarrow> 'c outcome" where
  "setupTypingEffect a =
     (a\<lparr>observed := observed a @
          filter (\<lambda>i. length (textContent (descriptions (dom a) ! i)) < 200)
            [0..<length (descriptions (dom a))]\<rparr>, None)"

text \<open>
  Every method the class body of \<open>CVAnimations\<close> defines, in source order, and the
  lookup table of the parameterless setup methods above, by name. A call \<open>this.name()\<close>
  of a name the object does not have throws a type error.
\<close>

definition CVAnimations_methods :: "string list" where
  "CVAnimations_methods =
     [''constructor'', ''init'', ''setupParticleSystem'', ''resizeCanvas'', ''createParticles'',
      ''animateParticles'', ''setupTextAnimations'', ''typeWriter'', ''setupHoverEffects'',
      ''addShineEffect'', ''addTiltEffect'', ''addRippleEffect'', ''setupCursorEffects'',
      ''setupScrollAnimations'', ''setupTypingEffect'', ''typeText'', ''destroy'']"

definition CVAnimations_prototype :: "(string \<times> ('c animations \<Rightarrow> 'c outcome)) list" where
  "CVAnimations_prototype =
     [(''setupParticleSystem'', setupParticleSystem),
      (''resizeCanvas'', resizeCanvas),
      (''createParticles'', createParticles),
      (''animateParticles'', animateParticles),
      (''setupTextAnimations'', setupTextAnimations),
      (''setupHoverEffects'', setupHoverEffects),
      (''setupCursorEffects'', setupCursorEffects),
      (''setupScrollAnimations'', setupScrollAnimations),
      (''setupTypingEffect'', setupTypingEffect)]"

definition call_method :: "string \<Rightarrow> 'c animations \<Rightarrow> 'c outcome" where
  "call_method name a =
     (case map_of CVAnimations_prototype name of
        Some f \<Rightarrow> f a
      | None \<Rightarrow> (a, Some (TypeError (''this.'' @ name @ '' is not a function''))))"

definition init :: "'c animations \<Rightarrow> 'c outcome" where
  "init a =
     (if isReducedMotion a then call_method ''setupEssentialAnimations'' a
      else and_then (and_then (and_then (and_then (and_then
             (call_method ''setupParticleSystem'' a)
             (call_method ''setupTextAnimations''))
             (call_method ''setupHoverEffects''))
             (call_method ''setupCursorEffects''))
             (call_method ''setupScrollAnimations''))
             (call_method ''setupTypingEffect''))"

definition new_CVAnimations :: "'c page \<Rightarrow> 'c outcome" where
  "new_CVAnimations pg =
     init \<lparr>isReducedMotion = prefersReducedMotion pg, particles = [], mouse = (0, 0),
           canvas = None, drawn = [], animationFrames = 0, timeouts = [], listeners = [],
           customCursor = False, bodyCursor = [], observed = [], dom = pg\<rparr>"

text \<open>
  The timer of the \<open>DOMContentLoaded\<close> handler: \<open>window.CVAnimations\<close> afterwards. The
  assignment happens only if the constructor returns.
\<close>

definition window_CVAnimations :: "'c page \<Rightarrow> 'c animations option" where
  "window_CVAnimations pg =
     (case snd (new_CVAnimations pg) of
        None \<Rightarrow> Some (fst (new_CVAnimations pg))
      | Some e \<Rightarrow> None)"

section \<open>Navigation controller (class CVApp)\<close>

subsection \<open>The document\<close>

text \<open>
  The document is the list of its elements in document order; an element is referred to
  by its position. Of an element the model keeps the id, the class list, the parent,
  and the attributes, text and inline styles that \<open>CVApp\<close> reads or writes.
\<close>

record element =
  elem_id :: string
  classList :: "string list"
  parentNode :: "nat option"
  innerHTML :: string
  el_text :: string
  data_width :: "string option"
  style_width :: string
  style_opacity :: string
  style_transform :: string

type_synonym document = "element list"

definition has_class :: "string \<Rightarrow> element \<Rightarrow> bool" where
  "has_class c e = (c \<in> set (classList e))"

definition classList_add :: "string \<Rightarrow> element \<Rightarrow> element" where
  "classList_add c e =
     (if c \<in> set (classList e) then e else e\<lparr>classList := classList e @ [c]\<rparr>)"

definition classList_remove :: "string \<Rightarrow> element \<Rightarrow> element" where
  "classList_remove c e = e\<lparr>classList := removeAll c (classList e)\<rparr>"

text \<open>
  Selectors as the code uses them: a compound class selector \<open>.a.b\<close> is the list of its
  classes, a selector list \<open>.a, .b\<close> the list of its compound selectors.
\<close>

definition matches :: "string list \<Rightarrow> element \<Rightarrow> bool" where
  "matches cs e = list_all (\<lambda>c. has_class c e) cs"

definition matches_any :: "string list list \<Rightarrow> element \<Rightarrow> bool" where
  "matches_any css e = list_ex (\<lambda>cs. matches cs e) css"

fun find_index :: "('a \<Rightarrow> bool) \<Rightarrow> 'a list \<Rightarrow> nat option" where
  "find_index P [] = None"
| "find_index P (x # xs) = (if P x then Some 0 else map_option Suc (find_index P xs))"

definition querySelector :: "string list \<Rightarrow> document \<Rightarrow> nat option" where
  "querySelector cs d = find_index (matches cs) d"

definition querySelectorAll :: "string list list \<Rightarrow> document \<Rightarrow> nat list" where
  "querySelectorAll css d = filter (\<lambda>i. matches_any css (d ! i)) [0..<length d]"

definition getElementById :: "string \<Rightarrow> document \<Rightarrow> nat option" where
  "getElementById s d = (if s = [] then None else find_index (\<lambda>e. elem_id e = s) d)"

text \<open>Element \<open>i\<close> lies below element \<open>s\<close>: the parent chain of \<open>i\<close> reaches \<open>s\<close>.\<close>

fun has_ancestor :: "document \<Rightarrow> nat \<Rightarrow> nat \<Rightarrow> nat \<Rightarrow> bool" where
  "has_ancestor d 0 s i = False"
| "has_ancestor d (Suc fuel) s i =
     (if i < length d
      then (case parentNode (d ! i) of
              None \<Rightarrow> False
            | Some p \<Rightarrow> p = s \<or> has_ancestor d fuel s p)
      else False)"

definition querySelectorAll_in :: "nat \<Rightarrow> string list list \<Rightarrow> document \<Rightarrow> nat list" where
  "querySelectorAll_in s css d =
     filter (\<lambda>i. matches_any css (d ! i) \<and> has_ancestor d (length d) s i) [0..<length d]"

text \<open>\<open>Array.from(element.parentNode.children).indexOf(element)\<close>.\<close>

definition child_index :: "document \<Rightarrow> nat \<Rightarrow> nat" where
  "child_index d i = length (filter (\<lambda>j. parentNode (d ! j) = parentNode (d ! i)) [0..<i])"

definition animatable :: "string list list" where
  "animatable = [[''timeline-item''], [''stat-item''], [''skill-item''], [''soft-skill-item''],
                 [''certification-item''], [''info-card''], [''education-item'']]"

text \<open>The sections that carry the active marker, in document order.\<close>

definition active_sections :: "document \<Rightarrow> nat list" where
  "active_sections d = filter (\<lambda>i. matches [''section'', ''active''] (d ! i)) [0..<length d]"

subsection \<open>State and timers\<close>

text \<open>The callbacks \<open>CVApp\<close> hands to \<open>setTimeout\<close>.\<close>

datatype timer =
    AnimateElement nat
  | AnimateSkillBars "nat list"
  | SetBarWidth nat string
  | HideLoadingSpinner nat
  | RevealLink nat

text \<open>
  \<open>this.elements\<close> and \<open>this.state\<close> with the parts of the browser the methods write:
  the document, the overflow style of the body, the timers set and not yet fired (delay
  and callback, in call order), the address bar with the history entries pushed, and
  the targets under the intersection observer. \<open>hasAnimated\<close> is a JavaScript \<open>Set\<close>:
  its members in insertion order. \<open>animationLog\<close> records every
  \<open>classList.add(animationClass)\<close> that \<open>animateElement\<close> performs, in order.
\<close>

record cvapp =
  doc :: document
  navLinks :: "nat list"
  navMenu :: "nat option"
  menuToggle :: "nat option"
  loadingSpinner :: "nat option"
  skillBars :: "nat list"
  currentSection :: string
  isMenuOpen :: bool
  hasAnimated :: "nat list"
  announcer :: "nat option"
  bodyOverflow :: string
  pending :: "(nat \<times> timer) list"
  pathname :: string
  url :: string
  pushStateSupported :: bool
  pushed :: "string list"
  observedElements :: "nat list"
  animationLog :: "nat list"

subsection \<open>Showing a section\<close>

definition getAnimationClass :: "document \<Rightarrow> nat \<Rightarrow> string" where
  "getAnimationClass d i =
     (if has_class ''timeline-item'' (d ! i)
      then (let isOdd = (child_index d i mod 2 = 0)
            in if isOdd then ''slide-in-left'' else ''slide-in-right'')
      else if has_class ''stat-item'' (d ! i) \<or> has_class ''soft-skill-item'' (d ! i)
      then ''scale-in''
      else ''fade-in'')"

definition animateElement :: "cvapp \<Rightarrow> nat \<Rightarrow> cvapp" where
  "animateElement st i =
     (let d = doc st;
          animationClass = getAnimationClass d i;
          st1 = st\<lparr>doc := d[i := classList_add animationClass (d ! i)],
                   animationLog := animationLog st @ [i]\<rparr>;
          bars = querySelectorAll_in i [[''skill-progress'']] (doc st1)
      in if bars \<noteq> [] then st1\<lparr>pending := pending st1 @ [(300, AnimateSkillBars bars)]\<rparr>
         else st1)"

definition animateSection :: "cvapp \<Rightarrow> nat \<Rightarrow> cvapp" where
  "animateSection st section =
     (let elements = querySelectorAll_in section animatable (doc st)
      in st\<lparr>pending := pending st @
            map (\<lambda>index. (index * 100, AnimateElement (elements ! index)))
              [0..<length elements]\<rparr>)"

definition updateURL :: "cvapp \<Rightarrow> string \<Rightarrow> cvapp" where
  "updateURL st sectionId =
     (if pushStateSupported st
      then (let newURL = pathname st @ ''#'' @ sectionId;
                st1 = st\<lparr>url := newURL, pushed := pushed st @ [newURL]\<rparr>
            in case announcer st1 of
                 None \<Rightarrow> st1
               | Some a \<Rightarrow>
                   st1\<lparr>doc := (doc st1)[a := (doc st1 ! a)
                          \<lparr>el_text := ''Secci'' @ [CHR 0xF3] @ ''n '' @ sectionId @ '' cargada''\<rparr>]\<rparr>)
      else st)"

definition showSection :: "cvapp \<Rightarrow> string \<Rightarrow> cvapp" where
  "showSection st sectionId =
     (let st1 = (case querySelector [''section'', ''active''] (doc st) of
                   None \<Rightarrow> st
                 | Some current \<Rightarrow>
                     st\<lparr>doc := (doc st)[current :=
                            classList_remove ''active'' (doc st ! current)]\<rparr>)
      in case getElementById sectionId (doc st1) of
           None \<Rightarrow> st1
         | Some targetSection \<Rightarrow>
             updateURL
               (animateSection
                  (st1\<lparr>doc := (doc st1)[targetSection :=
                          classList_add ''active'' (doc st1 ! targetSection)],
                       currentSection := sectionId\<rparr>)
                  targetSection)
               sectionId)"

subsection \<open>Reveal animations\<close>

definition animateSkillBars :: "cvapp \<Rightarrow> nat list \<Rightarrow> cvapp" where
  "animateSkillBars st bars =
     st\<lparr>pending := pending st @
          concat (map (\<lambda>index.
                    case data_width (doc st ! (bars ! index)) of
                      None \<Rightarrow> []
                    | Some targetWidth \<Rightarrow>
                        if targetWidth = [] then []
                        else [(index * 100, SetBarWidth (bars ! index) (targetWidth @ ''%''))])
                  [0..<length bars])\<rparr>"

text \<open>One entry of the callback of \<open>setupIntersectionObserver\<close>: target and \<open>isIntersecting\<close>.\<close>

definition observe_entry :: "cvapp \<Rightarrow> nat \<times> bool \<Rightarrow> cvapp" where
  "observe_entry st entry =
     (if snd entry \<and> fst entry \<notin> set (hasAnimated st)
      then (let st1 = animateElement st (fst entry)
            in st1\<lparr>hasAnimated := hasAnimated st1 @ [fst entry]\<rparr>)
      else st)"

definition intersection_callback :: "cvapp \<Rightarrow> (nat \<times> bool) list \<Rightarrow> cvapp" where
  "intersection_callback st entries = foldl observe_entry st entries"

definition setupIntersectionObserver :: "cvapp \<Rightarrow> cvapp" where
  "setupIntersectionObserver st =
     st\<lparr>observedElements := observedElements st @ querySelectorAll animatable (doc st)\<rparr>"

definition adjustMobileAnimations :: "cvapp \<Rightarrow> cvapp" where
  "adjustMobileAnimations st =
     st\<lparr>doc := foldl (\<lambda>d item. d[item := classList_add ''fade-in''
                       (classList_remove ''slide-in-right''
                         (classList_remove ''slide-in-left'' (d ! item)))])
                (doc st) (querySelectorAll [[''timeline-item'']] (doc st))\<rparr>"

definition recalculateAnimations :: "cvapp \<Rightarrow> int \<Rightarrow> cvapp" where
  "recalculateAnimations st width =
     (let st1 = st\<lparr>hasAnimated := []\<rparr>
      in if width \<le> 768 then adjustMobileAnimations st1 else st1)"

subsection \<open>Mobile menu and resize\<close>

definition openMobileMenu :: "cvapp \<Rightarrow> cvapp \<times> js_error option" where
  \<open>openMobileMenu st =
     (case navMenu st of
        None \<Rightarrow> (st, Some (TypeError ''this.elements.navMenu is null''))
      | Some m \<Rightarrow>
          (let st1 = st\<lparr>doc := (doc st)[m := classList_add ''active'' (doc st ! m)]\<rparr>
           in case menuToggle st1 of
                None \<Rightarrow> (st1, Some (TypeError ''this.elements.menuToggle is null''))
              | Some t \<Rightarrow>
                  (st1\<lparr>doc := (doc st1)[t := (doc st1 ! t)
                           \<lparr>innerHTML := ''<i class="fas fa-times"></i>''\<rparr>],
                        bodyOverflow := ''hidden'',
                        pending := pending st1 @
                          map (\<lambda>index. (index * 50, RevealLink (navLinks st1 ! index)))
                            [0..<length (navLinks st1)]\<rparr>, None)))\<close>

definition closeMobileMenu :: "cvapp \<Rightarrow> cvapp \<times> js_error option" where
  \<open>closeMobileMenu st =
     (case navMenu st of
        None \<Rightarrow> (st, Some (TypeError ''this.elements.navMenu is null''))
      | Some m \<Rightarrow>
          (let st1 = st\<lparr>doc := (doc st)[m := classList_remove ''active'' (doc st ! m)]\<rparr>
           in case menuToggle st1 of
                None \<Rightarrow> (st1, Some (TypeError ''this.elements.menuToggle is null''))
              | Some t \<Rightarrow>
                  (st1\<lparr>doc := (doc st1)[t := (doc st1 ! t)
                           \<lparr>innerHTML := ''<i class="fas fa-bars"></i>''\<rparr>],
                        bodyOverflow := [],
                        isMenuOpen := False\<rparr>, None)))\<close>

definition toggleMobileMenu :: "cvapp \<Rightarrow> cvapp \<times> js_error option" where
  "toggleMobileMenu st =
     (let st1 = st\<lparr>isMenuOpen := \<not> isMenuOpen st\<rparr>
      in if isMenuOpen st1 then openMobileMenu st1 else closeMobileMenu st1)"

text \<open>
  \<open>handleResize\<close>, with the value \<open>width\<close> of \<open>window.innerWidth\<close> when the handler runs. An
  exception in \<open>closeMobileMenu\<close> ends the handler before \<open>recalculateAnimations\<close>.
\<close>

definition handleResize :: "cvapp \<Rightarrow> int \<Rightarrow> cvapp \<times> js_error option" where
  "handleResize st width =
     (let r = (if width > 768 \<and> isMenuOpen st then closeMobileMenu st else (st, None))
      in case snd r of
           Some e \<Rightarrow> r
         | None \<Rightarrow> (recalculateAnimations (fst r) width, None))"

subsection \<open>Timers, events and construction\<close>

fun fire :: "cvapp \<Rightarrow> timer \<Rightarrow> cvapp" where
  "fire st (AnimateElement e) = animateElement st e"
| "fire st (AnimateSkillBars bars) = animateSkillBars st bars"
| "fire st (SetBarWidth bar w) = st\<lparr>doc := (doc st)[bar := (doc st ! bar)\<lparr>style_width := w\<rparr>]\<rparr>"
| "fire st (HideLoadingSpinner sp) =
     st\<lparr>doc := (doc st)[sp := classList_remove ''active'' (doc st ! sp)]\<rparr>"
| "fire st (RevealLink l) =
     st\<lparr>doc := (doc st)[l := (doc st ! l)
            \<lparr>style_opacity := ''1'', style_transform := ''translateX(0)''\<rparr>]\<rparr>"

text \<open>
  What the browser can do to the page between two handlers: a navigation call
  (\<open>showSection\<close>), a notification of the intersection observer (for targets it
  observes), the firing of the \<open>k\<close>-th pending timer, a resize to a new inner width, a
  click on the menu toggle. An exception ends the handler and leaves its writes.
\<close>

datatype event =
    Navigate string
  | Intersect "(nat \<times> bool) list"
  | FireTimer nat
  | Resize int
  | ToggleMenu

fun step :: "cvapp \<Rightarrow> event \<Rightarrow> cvapp" where
  "step st (Navigate sectionId) = showSection st sectionId"
| "step st (Intersect entries) =
     intersection_callback st (filter (\<lambda>entry. fst entry \<in> set (observedElements st)) entries)"
| "step st (FireTimer k) =
     (if k < length (pending st)
      then fire (st\<lparr>pending := take k (pending st) @ drop (Suc k) (pending st)\<rparr>)
             (snd (pending st ! k))
      else st)"
| "step st (Resize width) = fst (handleResize st width)"
| "step st ToggleMenu = (if menuToggle st = None then st else fst (toggleMobileMenu st))"

definition run :: "cvapp \<Rightarrow> event list \<Rightarrow> cvapp" where
  "run st evs = foldl step st evs"

text \<open>An element as parsed from the markup: id, classes and parent, nothing else set.\<close>

definition new_element :: "string \<Rightarrow> string list \<Rightarrow> nat option \<Rightarrow> element" where
  "new_element i cs p =
     \<lparr>elem_id = i, classList = cs, parentNode = p, innerHTML = [], el_text = [],
      data_width = None, style_width = [], style_opacity = [], style_transform = []\<rparr>"

definition showLoadingSpinner :: "cvapp \<Rightarrow> cvapp" where
  "showLoadingSpinner st =
     (case loadingSpinner st of
        None \<Rightarrow> st
      | Some sp \<Rightarrow> st\<lparr>doc := (doc st)[sp := classList_add ''active'' (doc st ! sp)]\<rparr>)"

definition hideLoadingSpinner :: "cvapp \<Rightarrow> cvapp" where
  "hideLoadingSpinner st =
     (case loadingSpinner st of
        None \<Rightarrow> st
      | Some sp \<Rightarrow> st\<lparr>pending := pending st @ [(1000, HideLoadingSpinner sp)]\<rparr>)"

definition initializeSkillBars :: "cvapp \<Rightarrow> cvapp" where
  "initializeSkillBars st =
     st\<lparr>doc := foldl (\<lambda>d bar. d[bar := (d ! bar)\<lparr>style_width := ''0%''\<rparr>])
                (doc st) (skillBars st)\<rparr>"

definition setupAccessibility :: "cvapp \<Rightarrow> cvapp" where
  "setupAccessibility st =
     st\<lparr>doc := doc st @ [new_element [] [''sr-only''] None],
        announcer := Some (length (doc st))\<rparr>"

text \<open>
  The constructor followed by \<open>init\<close> on a loaded document: the element references and
  the state as the constructor sets them, the spinner, then \<open>initializeComponents\<close>
  (first section, observer, skill bars, announcer), then the timer that hides the
  spinner. Listener registration, the sticky navigation, the profile image and lazy
  loading write none of the fields kept here.
\<close>

definition new_CVApp :: "document \<Rightarrow> string \<Rightarrow> bool \<Rightarrow> cvapp" where
  "new_CVApp d path pushState =
     (let st0 = \<lparr>doc = d,
                 navLinks = querySelectorAll [[''nav-link'']] d,
                 navMenu = querySelector [''nav-menu''] d,
                 menuToggle = getElementById ''menuToggle'' d,
                 loadingSpinner = getElementById ''loadingSpinner'' d,
                 skillBars = querySelectorAll [[''skill-progress'']] d,
                 currentSection = ''perfil'',
                 isMenuOpen = False,
                 hasAnimated = [],
                 announcer = None,
                 bodyOverflow = [],
                 pending = [],
                 pathname = path,
                 url = path,
                 pushStateSupported = pushState,
                 pushed = [],
                 observedElements = [],
                 animationLog = []\<rparr>;
          st1 = showLoadingSpinner st0;
          st2 = showSection st1 (currentSection st1);
          st3 = setupIntersectionObserver st2;
          st4 = initializeSkillBars st3;
          st5 = setupAccessibility st4
      in hideLoadingSpinner st5)"

subsection \<open>Counting reveals\<close>

text \<open>
  The number of pending timers that will call \<open>animateElement\<close> on element \<open>e\<close>, and
  the events of a sequence that are navigation calls or resizes.
\<close>

definition scheduled :: "cvapp \<Rightarrow> nat \<Rightarrow> nat" where
  "scheduled st e = length (filter (\<lambda>t. snd t = AnimateElement e) (pending st))"




section \<open>Properties of the animation engine\<close>

subsection \<open>The particle tick\<close>

lemma limit_speed_pos [simp]: "p_x (limit_speed p) = p_x p" "p_y (limit_speed p) = p_y p"
  by (simp_all add: limit_speed_def Let_def)

lemma attract_pos [simp]: "p_x (attract m p) = p_x p" "p_y (attract m p) = p_y p"
  by (simp_all add: attract_def Let_def)

lemma reflect_pos [simp]: "p_x (reflect cw ch p) = p_x p" "p_y (reflect cw ch p) = p_y p"
  by (simp_all add: reflect_def Let_def)





subsection \<open>Rounding to doubles\<close>

lemma powr_powi: "(2::real) powr real_of_int k = 2 powi k"
  by (simp add: powr_real_of_int power_int_def power_one_over inverse_eq_divide)

lemma powi_less_imp:
  assumes "(2::real) powi a < 2 powi b"
  shows "a < b"
proof (rule ccontr)
  assume "\<not> a < b"
  then have "(2::real) powi b \<le> 2 powi a" by (intro power_int_increasing) simp_all
  with assms show False by simp
qed

lemma floor_log2: 
  assumes "x \<noteq> 0"
  shows "2 powi \<lfloor>log 2 \<bar>x\<bar>\<rfloor> \<le> \<bar>x\<bar>" "\<bar>x\<bar> < 2 powi (\<lfloor>log 2 \<bar>x\<bar>\<rfloor> + 1)"
proof -
  have "0 < \<bar>x\<bar>" using assms by simp
  from floor_log_eq_powr_iff [OF this, of 2 "\<lfloor>log 2 \<bar>x\<bar>\<rfloor>"]
  have "2 powr real_of_int \<lfloor>log 2 \<bar>x\<bar>\<rfloor> \<le> \<bar>x\<bar>"
       "\<bar>x\<bar> < 2 powr (real_of_int \<lfloor>log 2 \<bar>x\<bar>\<rfloor> + 1)"
    by simp_all
  then show "2 powi \<lfloor>log 2 \<bar>x\<bar>\<rfloor> \<le> \<bar>x\<bar>" "\<bar>x\<bar> < 2 powi (\<lfloor>log 2 \<bar>x\<bar>\<rfloor> + 1)"
    using powr_powi [of "\<lfloor>log 2 \<bar>x\<bar>\<rfloor>"] powr_powi [of "\<lfloor>log 2 \<bar>x\<bar>\<rfloor> + 1"]
    by simp_all
qed

lemma floor_log2_eq:
  assumes "2 powi k \<le> \<bar>x\<bar>" "\<bar>x\<bar> < 2 powi (k + 1)"
  shows "\<lfloor>log 2 \<bar>x\<bar>\<rfloor> = k"
proof -
  have "0 < (2::real) powi k" by simp
  with assms(1) have pos: "0 < \<bar>x\<bar>" by linarith
  have "2 powr real_of_int k \<le> \<bar>x\<bar>" "\<bar>x\<bar> < 2 powr (real_of_int k + 1)"
    using assms powr_powi [of k] powr_powi [of "k + 1"] by simp_all
  then show ?thesis
    using floor_log_eq_powr_iff [OF pos, of 2 k] by simp
qed

lemma round_even_near:
  assumes "\<bar>y - of_int m\<bar> < 1 / 2 \<or> (\<bar>y - of_int m\<bar> = 1 / 2 \<and> even m)"
  shows "round_even y = m"
proof -
  consider "of_int m \<le> y" "y - of_int m < 1 / 2"
    | "y < of_int m" "of_int m - y < 1 / 2"
    | "y - of_int m = 1 / 2" "even m"
    | "of_int m - y = 1 / 2" "even m"
    using assms by (cases "of_int m \<le> y") auto
  then show ?thesis
  proof cases
    case 1
    then have "\<lfloor>y\<rfloor> = m" by (intro floor_unique) auto
    with 1 show ?thesis by (simp add: round_even_def Let_def)
  next
    case 2
    then have f: "\<lfloor>y\<rfloor> = m - 1" by (intro floor_unique) auto
    with 2 show ?thesis by (simp add: round_even_def Let_def)
  next
    case 3
    then have "\<lfloor>y\<rfloor> = m" by (intro floor_unique) auto
    with 3 show ?thesis by (simp add: round_even_def Let_def)
  next
    case 4
    then have f: "\<lfloor>y\<rfloor> = m - 1" by (intro floor_unique) auto
    with 4 show ?thesis by (simp add: round_even_def Let_def)
  qed
qed

lemma round_even_error: "\<bar>of_int (round_even y) - y\<bar> \<le> 1 / 2"
proof -
  have "of_int \<lfloor>y\<rfloor> \<le> y" "y < of_int \<lfloor>y\<rfloor> + 1" by linarith+
  then show ?thesis
    by (auto simp add: round_even_def Let_def)
qed

lemma round_even_nonneg: "0 \<le> y \<Longrightarrow> 0 \<le> round_even y"
proof -
  assume "0 \<le> y"
  then have "0 \<le> \<lfloor>y\<rfloor>" by simp
  then show ?thesis by (simp add: round_even_def Let_def)
qed

text \<open>Evaluation of one rounding, from the exponent and the significand.\<close>

lemma fl_eqI:
  assumes "2 powi k \<le> \<bar>x\<bar>" "\<bar>x\<bar> < 2 powi (k + 1)" "- 1022 \<le> k"
    and "\<bar>x / 2 powi (k - 52) - of_int m\<bar> < 1 / 2 \<or>
         (\<bar>x / 2 powi (k - 52) - of_int m\<bar> = 1 / 2 \<and> even m)"
    and "\<bar>2 powi (k - 52) * real_of_int m\<bar> < 2 powi 1024"
  shows "fl x = Some (2 powi (k - 52) * of_int m)"
proof -
  have "0 < (2::real) powi k" by simp
  with assms(1) have "0 < \<bar>x\<bar>" by linarith
  then have nz: "x \<noteq> 0" by simp
  have "\<lfloor>log 2 \<bar>x\<bar>\<rfloor> = k" using assms(1,2) by (rule floor_log2_eq)
  then have e: "max \<lfloor>log 2 \<bar>x\<bar>\<rfloor> (- 1022) = k" using assms(3) by simp
  have r: "round_even (x / 2 powi (k - 52)) = m" using assms(4) by (rule round_even_near)
  show ?thesis
    using nz assms(5) by (simp add: fl_def e r Let_def del: power_int_numeral)
qed

text \<open>
  The error of one rounding: relative in the normal range, at most half the spacing of
  the subnormal doubles below it.
\<close>

lemma fl_error:
  assumes "fl x = Some r"
  shows "\<bar>r - x\<bar> \<le> unit_roundoff * \<bar>x\<bar> + underflow_error"
proof (cases "x = 0")
  case True
  with assms show ?thesis by (simp add: fl_def underflow_error_def)
next
  case False
  define e where "e = max \<lfloor>log 2 \<bar>x\<bar>\<rfloor> (- 1022)"
  define q :: real where "q = 2 powi (e - 52)"
  have qpos: "0 < q" by (simp add: q_def)
  have r: "r = q * of_int (round_even (x / q))"
    using assms False by (simp add: fl_def e_def q_def Let_def split: if_splits)
  have "r - x = q * (of_int (round_even (x / q)) - x / q)"
    using qpos by (simp add: r field_simps)
  then have "\<bar>r - x\<bar> = q * \<bar>of_int (round_even (x / q)) - x / q\<bar>"
    using qpos by (simp add: abs_mult)
  also have "\<dots> \<le> q * (1 / 2)"
    using qpos round_even_error [of "x / q"] by (intro mult_left_mono) auto
  also have "q * (1 / 2) = unit_roundoff * 2 powi e"
    by (simp add: q_def unit_roundoff_def power_int_diff)
  finally have 1: "\<bar>r - x\<bar> \<le> unit_roundoff * 2 powi e" .
  have u0: "0 \<le> unit_roundoff" by (simp add: unit_roundoff_def)
  have e0: "0 \<le> underflow_error" by (simp add: underflow_error_def)
  show ?thesis
  proof (cases "- 1022 \<le> \<lfloor>log 2 \<bar>x\<bar>\<rfloor>")
    case True
    then have "e = \<lfloor>log 2 \<bar>x\<bar>\<rfloor>" by (simp add: e_def)
    then have "2 powi e \<le> \<bar>x\<bar>" using floor_log2(1) [OF False] by simp
    then have "unit_roundoff * 2 powi e \<le> unit_roundoff * \<bar>x\<bar>"
      using u0 by (rule mult_left_mono)
    with 1 e0 show ?thesis by linarith
  next
    case False
    then have "e = - 1022" by (simp add: e_def)
    then have "unit_roundoff * 2 powi e = underflow_error"
      by (simp add: unit_roundoff_def underflow_error_def power_int_minus field_simps)
    moreover have "0 \<le> unit_roundoff * \<bar>x\<bar>" using u0 by simp
    ultimately show ?thesis using 1 by linarith
  qed
qed

lemma fl_nonneg:
  assumes "fl x = Some r" "0 \<le> x"
  shows "0 \<le> r"
proof (cases "x = 0")
  case True
  with assms show ?thesis by (simp add: fl_def)
next
  case False
  define q :: real where "q = 2 powi (max \<lfloor>log 2 \<bar>x\<bar>\<rfloor> (- 1022) - 52)"
  have qpos: "0 < q" by (simp add: q_def)
  have r: "r = q * of_int (round_even (x / q))"
    using assms False by (simp add: fl_def q_def Let_def split: if_splits)
  have "0 \<le> x / q" using assms(2) qpos by simp
  then have "0 \<le> round_even (x / q)" by (rule round_even_nonneg)
  then show ?thesis using qpos by (simp add: r)
qed

lemma fl_zero [simp]: "fl 0 = Some 0"
  by (simp add: fl_def)

lemma fl_sqrt_eqI:
  assumes "(2 powi k)\<^sup>2 \<le> s" "s < (2 powi (k + 1))\<^sup>2" "- 1022 \<le> k" "0 < m"
    and "(2 powi (k - 52) * (real_of_int m - 1 / 2))\<^sup>2 < s"
    and "s < (2 powi (k - 52) * (real_of_int m + 1 / 2))\<^sup>2"
    and "\<bar>2 powi (k - 52) * real_of_int m\<bar> < 2 powi 1024"
  shows "fl (sqrt s) = Some (2 powi (k - 52) * real_of_int m)"
proof -
  define q :: real where "q = 2 powi (k - 52)"
  have qpos: "0 < q" by (simp add: q_def)
  have s0: "0 \<le> s" using assms(1) by (meson order_trans zero_le_power2)
  have lo: "2 powi k \<le> sqrt s" using assms(1) by (rule real_le_rsqrt)
  have hi: "sqrt s < 2 powi (k + 1)"
    using assms(2) by (intro real_less_lsqrt) simp_all
  have a: "q * (real_of_int m - 1 / 2) < sqrt s"
    using assms(5) unfolding q_def by (rule real_less_rsqrt)
  have b: "sqrt s < q * (real_of_int m + 1 / 2)"
    using assms(6) qpos assms(4) unfolding q_def [symmetric]
    by (intro real_less_lsqrt) simp_all
  have a': "q * real_of_int m - q / 2 < sqrt s"
    using a by (simp add: algebra_simps)
  have b': "sqrt s < q * real_of_int m + q / 2"
    using b by (simp add: algebra_simps)
  have "\<bar>sqrt s - q * real_of_int m\<bar> < q / 2"
    using a' b' by linarith
  moreover have "sqrt s / q - real_of_int m = (sqrt s - q * real_of_int m) / q"
    using qpos by (simp add: field_simps)
  ultimately have "\<bar>sqrt s / q - real_of_int m\<bar> < 1 / 2"
    using qpos by (simp add: abs_divide field_simps)
  then show ?thesis
    using fl_eqI [of k "sqrt s" m] lo hi assms(3,7) s0 by (simp add: q_def)
qed

lemma powi_neg_nat: "(2::real) powi (- int j) = 1 / 2 ^ j"
  by (simp add: power_int_minus inverse_eq_divide)

lemma powi_diff_nat: "(2::real) powi (53 - int j) = 2 ^ 53 / 2 ^ j"
proof -
  have "(2::real) powi (53 - int j) = 2 powi 53 / 2 powi (int j)"
    by (rule power_int_diff) simp
  then show ?thesis by simp
qed

lemma fl_dyadic:
  assumes "n \<noteq> 0" "\<bar>n\<bar> < 2 ^ 53" "j \<le> 1022"
  shows "fl (real_of_int n / 2 ^ j) = Some (real_of_int n / 2 ^ j)"
proof -
  define x :: real where "x = real_of_int n / 2 ^ j"
  have absx: "\<bar>x\<bar> = \<bar>real_of_int n\<bar> / 2 ^ j" by (simp add: x_def abs_divide)
  have nz: "x \<noteq> 0" using assms(1) by (simp add: x_def)
  define e where "e = \<lfloor>log 2 \<bar>x\<bar>\<rfloor>"
  have lo: "2 powi e \<le> \<bar>x\<bar>" and hi: "\<bar>x\<bar> < 2 powi (e + 1)"
    using floor_log2 [OF nz] by (simp_all add: e_def)
  have n1: "1 \<le> \<bar>real_of_int n\<bar>"
  proof -
    have "1 \<le> \<bar>n\<bar>" using assms(1) by linarith
    then have "real_of_int 1 \<le> real_of_int \<bar>n\<bar>" by (simp only: of_int_le_iff)
    then show ?thesis by simp
  qed
  have n2: "\<bar>real_of_int n\<bar> < 2 ^ 53"
  proof -
    have "real_of_int \<bar>n\<bar> < real_of_int (2 ^ 53)" using assms(2) by (simp only: of_int_less_iff)
    then show ?thesis by simp
  qed
  have "2 powi (- int j) \<le> \<bar>x\<bar>"
    unfolding powi_neg_nat absx using n1 by (intro divide_right_mono) simp_all
  with hi have "(2::real) powi (- int j) < 2 powi (e + 1)" by linarith
  then have "- int j < e + 1" by (rule powi_less_imp)
  then have e_lo: "- int j \<le> e" by simp
  have "\<bar>x\<bar> < 2 powi (53 - int j)"
    unfolding powi_diff_nat absx using n2 by (intro divide_strict_right_mono) simp_all
  with lo have "(2::real) powi e < 2 powi (53 - int j)" by linarith
  then have "e < 53 - int j" by (rule powi_less_imp)
  then have e_hi: "e + int j \<le> 52" by simp
  define t where "t = nat (52 - e - int j)"
  have t: "int t = 52 - e - int j" using e_hi by (simp add: t_def)
  have q: "(2::real) powi (e - 52) = 1 / 2 ^ (t + j)"
  proof -
    have "e - 52 = - int (t + j)" using t by simp
    then have "(2::real) powi (e - 52) = 2 powi (- int (t + j))" by simp
    then show ?thesis by (simp only: powi_neg_nat)
  qed
  have r: "2 powi (e - 52) * real_of_int (n * 2 ^ t) = x"
    unfolding q x_def by (simp add: power_add)
  have y: "x / 2 powi (e - 52) - real_of_int (n * 2 ^ t) = 0"
    unfolding q x_def by (simp add: power_add)
  have big: "\<bar>x\<bar> < 2 powi 1024"
  proof -
    have "\<bar>x\<bar> \<le> \<bar>real_of_int n\<bar> / 1"
      unfolding absx by (intro divide_left_mono) simp_all
    also have "\<dots> < 2 ^ 53" using n2 by simp
    also have "\<dots> < (2::real) powi 1024" by simp
    finally show ?thesis .
  qed
  have "fl x = Some (2 powi (e - 52) * real_of_int (n * 2 ^ t))"
  proof (rule fl_eqI)
    show "2 powi e \<le> \<bar>x\<bar>" by fact
    show "\<bar>x\<bar> < 2 powi (e + 1)" by fact
    show "- 1022 \<le> e" using e_lo assms(3) by simp
    show "\<bar>x / 2 powi (e - 52) - real_of_int (n * 2 ^ t)\<bar> < 1 / 2 \<or>
         (\<bar>x / 2 powi (e - 52) - real_of_int (n * 2 ^ t)\<bar> = 1 / 2 \<and> even (n * 2 ^ t))"
      unfolding y by simp
    show "\<bar>2 powi (e - 52) * real_of_int (n * 2 ^ t)\<bar> < 2 powi 1024"
      unfolding r by fact
  qed
  then show ?thesis unfolding r x_def .
qed

text \<open>A rounding is undefined only where the result overflows.\<close>

lemma fl_defined:
  assumes "\<bar>x\<bar> \<le> 2 powi 1023"
  shows "\<exists>r. fl x = Some r"
proof (cases "x = 0")
  case True
  then show ?thesis by simp
next
  case False
  define e where "e = max \<lfloor>log 2 \<bar>x\<bar>\<rfloor> (- 1022)"
  define q :: real where "q = 2 powi (e - 52)"
  define r where "r = q * of_int (round_even (x / q))"
  have qpos: "0 < q" by (simp add: q_def)
  have "(2::real) powi \<lfloor>log 2 \<bar>x\<bar>\<rfloor> < 2 powi 1024"
  proof -
    have "(2::real) powi \<lfloor>log 2 \<bar>x\<bar>\<rfloor> \<le> \<bar>x\<bar>" using floor_log2(1) [OF False] .
    also have "\<dots> \<le> 2 powi 1023" by fact
    also have "\<dots> < (2::real) powi 1024" by (intro power_int_strict_increasing) simp_all
    finally show ?thesis .
  qed
  then have "\<lfloor>log 2 \<bar>x\<bar>\<rfloor> < 1024" by (rule powi_less_imp)
  then have e: "e \<le> 1023" by (simp add: e_def)
  have "r - x = q * (of_int (round_even (x / q)) - x / q)"
    using qpos by (simp add: r_def field_simps)
  then have "\<bar>r - x\<bar> = q * \<bar>of_int (round_even (x / q)) - x / q\<bar>"
    using qpos by (simp add: abs_mult)
  also have "\<dots> \<le> q * 1"
    using qpos round_even_error [of "x / q"] by (intro mult_left_mono) auto
  also have "q * 1 \<le> 2 powi 971"
    unfolding q_def using e by (simp del: power_int_numeral) (intro power_int_increasing, simp_all)
  finally have "\<bar>r\<bar> \<le> 2 powi 1023 + 2 powi 971" using assms by linarith
  also have "\<dots> < 2 powi 1023 + (2::real) powi 1023"
    by (intro add_strict_left_mono power_int_strict_increasing) simp_all
  also have "\<dots> = (2::real) powi 1024"
    using power_int_add [of "2::real" 1023 1] by simp
  finally have "\<not> 2 powi 1024 \<le> \<bar>r\<bar>" by simp
  then show ?thesis
    using False unfolding fl_def e_def [symmetric] Let_def q_def [symmetric] r_def [symmetric]
    by simp
qed

text \<open>The literals of the tick denote the doubles nearest to them.\<close>

lemma literal_doubles:
  "fl (2 / 10) = Some double_0_2"
  "fl (1 / 10000) = Some double_0_0001"
  using fl_eqI [of "- 3" "2 / 10" 7205759403792794] fl_eqI [of "- 14" "1 / 10000" 7378697629483821]
  by (simp_all add: double_0_2_def double_0_0001_def)

subsection \<open>Length of the clamped velocity\<close>

text \<open>
  The clamping step divides each velocity component by the computed speed and doubles
  it; each of the four operations, and each of the four that computed the speed, rounds.
  The length of the clamped velocity stays within the factor
  \<open>((1 + u) / (1 - u))\<^sup>2\<close> of 2, for \<open>u\<close> the unit roundoff, up to what underflow adds.
\<close>

lemma unit_roundoff_range: "0 < unit_roundoff" "unit_roundoff < 1"
  by (simp_all add: unit_roundoff_def)



lemma fl_abs_upper:
  assumes "fl x = Some r"
  shows "\<bar>r\<bar> \<le> (1 + unit_roundoff) * \<bar>x\<bar> + underflow_error"
proof -
  have "\<bar>r\<bar> \<le> \<bar>r - x\<bar> + \<bar>x\<bar>" by linarith
  also have "\<dots> \<le> unit_roundoff * \<bar>x\<bar> + underflow_error + \<bar>x\<bar>"
    using fl_error [OF assms] by simp
  finally show ?thesis by (simp add: algebra_simps)
qed






subsection \<open>No overflow on moderate values\<close>

lemma fl_bounded:
  assumes "\<bar>x\<bar> \<le> 2 ^ n" "n \<le> 1000"
  shows "\<exists>r. fl x = Some r \<and> \<bar>r\<bar> \<le> 2 ^ Suc n"
proof -
  have "(2::real) ^ n \<le> 2 ^ 1023" using assms(2) by (intro power_increasing) simp_all
  then have "\<bar>x\<bar> \<le> 2 powi 1023" using assms(1) by simp
  from fl_defined [OF this] obtain r where r: "fl x = Some r" by blast
  have one: "(1::real) \<le> 2 ^ n" by simp
  have "\<bar>r\<bar> \<le> (1 + unit_roundoff) * \<bar>x\<bar> + underflow_error" using r by (rule fl_abs_upper)
  also have "\<dots> \<le> (1 + unit_roundoff) * 2 ^ n + underflow_error"
    using assms(1) unit_roundoff_range by (simp add: mult_left_mono)
  also have "\<dots> \<le> (1 + 1 / 2) * 2 ^ n + 1 / 2 * 2 ^ n"
  proof -
    have "unit_roundoff \<le> 1 / 2" by (simp add: unit_roundoff_def)
    then have "(1 + unit_roundoff) * 2 ^ n \<le> (1 + 1 / 2) * 2 ^ n"
      by (intro mult_right_mono) simp_all
    moreover have "underflow_error \<le> 1 / 2" by (simp add: underflow_error_def)
    moreover have "(1::real) / 2 * 1 \<le> 1 / 2 * 2 ^ n" using one by (intro mult_left_mono) simp_all
    ultimately show ?thesis by linarith
  qed
  also have "\<dots> = 2 ^ Suc n" by simp
  finally show ?thesis using r by blast
qed

lemma pow2_mono: "\<bar>x\<bar> \<le> 2 ^ i \<Longrightarrow> i \<le> j \<Longrightarrow> \<bar>x::real\<bar> \<le> 2 ^ j"
  by (meson order_trans power_increasing one_le_numeral)

lemma pow2_add: "\<bar>x\<bar> \<le> 2 ^ n \<Longrightarrow> \<bar>y\<bar> \<le> 2 ^ n \<Longrightarrow> \<bar>x + y::real\<bar> \<le> 2 ^ Suc n"
  by simp

lemma pow2_diff: "\<bar>x\<bar> \<le> 2 ^ n \<Longrightarrow> \<bar>y\<bar> \<le> 2 ^ n \<Longrightarrow> \<bar>x - y::real\<bar> \<le> 2 ^ Suc n"
  by simp

lemma pow2_mult: "\<bar>x\<bar> \<le> 2 ^ i \<Longrightarrow> \<bar>y\<bar> \<le> 2 ^ j \<Longrightarrow> \<bar>x * y::real\<bar> \<le> 2 ^ (i + j)"
  unfolding abs_mult power_add by (intro mult_mono) simp_all

lemma sqrt_sum_squares_defined:
  assumes "\<bar>a\<bar> \<le> 2 ^ n" "\<bar>b\<bar> \<le> 2 ^ n" "n \<le> 400"
  shows "\<exists>s. sqrt_sum_squares a b = Some s \<and> 0 \<le> s \<and> s \<le> 2 ^ (n + 3)"
proof -
  have "\<bar>a * a\<bar> \<le> 2 ^ (n + n)" using assms(1) assms(1) by (rule pow2_mult)
  from fl_bounded [OF this] assms(3) obtain xx where
    xx: "fl (a * a) = Some xx" "\<bar>xx\<bar> \<le> 2 ^ Suc (n + n)" by auto
  have "\<bar>b * b\<bar> \<le> 2 ^ (n + n)" using assms(2) assms(2) by (rule pow2_mult)
  from fl_bounded [OF this] assms(3) obtain yy where
    yy: "fl (b * b) = Some yy" "\<bar>yy\<bar> \<le> 2 ^ Suc (n + n)" by auto
  have xx0: "0 \<le> xx" using fl_nonneg [OF xx(1)] by simp
  have yy0: "0 \<le> yy" using fl_nonneg [OF yy(1)] by simp
  have "\<bar>xx + yy\<bar> \<le> 2 ^ Suc (Suc (n + n))" using xx(2) yy(2) by (rule pow2_add)
  from fl_bounded [OF this] assms(3) obtain t where
    t: "fl (xx + yy) = Some t" "\<bar>t\<bar> \<le> 2 ^ Suc (Suc (Suc (n + n)))" by auto
  have t0: "0 \<le> t" using fl_nonneg [OF t(1)] xx0 yy0 by simp
  have "t \<le> (2 ^ (n + 2))\<^sup>2"
  proof -
    have "t \<le> 2 ^ Suc (Suc (Suc (n + n)))" using t(2) by simp
    also have "\<dots> \<le> (2::real) ^ (2 * (n + 2))" by (intro power_increasing) simp_all
    also have "\<dots> = (2 ^ (n + 2))\<^sup>2" by (simp add: power_mult [symmetric] mult.commute)
    finally show ?thesis .
  qed
  then have "sqrt t \<le> 2 ^ (n + 2)" by (intro real_le_lsqrt) simp_all
  then have "\<bar>sqrt t\<bar> \<le> 2 ^ (n + 2)" using t0 by simp
  from fl_bounded [OF this] assms(3) obtain s where
    s: "fl (sqrt t) = Some s" "\<bar>s\<bar> \<le> 2 ^ Suc (n + 2)" by auto
  have s0: "0 \<le> s" using fl_nonneg [OF s(1)] t0 by simp
  have "sqrt_sum_squares a b = Some s"
    by (simp add: sqrt_sum_squares_def xx(1) yy(1) t(1) s(1))
  moreover have "s \<le> 2 ^ (n + 3)" using s(2) by (simp add: power_add)
  ultimately show ?thesis using s0 by blast
qed

lemma integrate_double_defined:
  assumes "\<bar>p_x p\<bar> \<le> 2 ^ n" "\<bar>p_y p\<bar> \<le> 2 ^ n" "\<bar>p_vx p\<bar> \<le> 2 ^ n" "\<bar>p_vy p\<bar> \<le> 2 ^ n"
    and "n \<le> 900"
  shows "\<exists>p1. integrate_double p = Some p1 \<and>
           \<bar>p_x p1\<bar> \<le> 2 ^ (n + 2) \<and> \<bar>p_y p1\<bar> \<le> 2 ^ (n + 2) \<and>
           p_vx p1 = p_vx p \<and> p_vy p1 = p_vy p"
proof -
  have "\<bar>p_x p + p_vx p\<bar> \<le> 2 ^ Suc n" using assms(1,3) by (rule pow2_add)
  from fl_bounded [OF this] assms(5) obtain x where
    x: "fl (p_x p + p_vx p) = Some x" "\<bar>x\<bar> \<le> 2 ^ Suc (Suc n)" by auto
  have "\<bar>p_y p + p_vy p\<bar> \<le> 2 ^ Suc n" using assms(2,4) by (rule pow2_add)
  from fl_bounded [OF this] assms(5) obtain y where
    y: "fl (p_y p + p_vy p) = Some y" "\<bar>y\<bar> \<le> 2 ^ Suc (Suc n)" by auto
  have "integrate_double p = Some (p\<lparr>p_x := x, p_y := y\<rparr>)"
    by (simp add: integrate_double_def x(1) y(1))
  then show ?thesis using x(2) y(2) by simp
qed

lemma reflect_double_defined:
  assumes "\<bar>p_vx p\<bar> \<le> 2 ^ n" "\<bar>p_vy p\<bar> \<le> 2 ^ n" "n \<le> 900"
  shows "\<exists>p2. reflect_double cw ch p = Some p2 \<and>
           p_x p2 = p_x p \<and> p_y p2 = p_y p \<and>
           \<bar>p_vx p2\<bar> \<le> 2 ^ Suc n \<and> \<bar>p_vy p2\<bar> \<le> 2 ^ Suc n"
proof -
  have "\<bar>p_vx p * (- 1)\<bar> \<le> 2 ^ n" using assms(1) by simp
  from fl_bounded [OF this] assms(3) obtain vx where
    vx: "fl (p_vx p * (- 1)) = Some vx" "\<bar>vx\<bar> \<le> 2 ^ Suc n" by auto
  have "\<bar>p_vy p * (- 1)\<bar> \<le> 2 ^ n" using assms(2) by simp
  from fl_bounded [OF this] assms(3) obtain vy where
    vy: "fl (p_vy p * (- 1)) = Some vy" "\<bar>vy\<bar> \<le> 2 ^ Suc n" by auto
  have a: "\<bar>p_vx p\<bar> \<le> 2 ^ Suc n" using assms(1) by (rule pow2_mono) simp
  have b: "\<bar>p_vy p\<bar> \<le> 2 ^ Suc n" using assms(2) by (rule pow2_mono) simp
  define vx' where "vx' = (if p_x p < 0 \<or> p_x p > cw then vx else p_vx p)"
  define vy' where "vy' = (if p_y p < 0 \<or> p_y p > ch then vy else p_vy p)"
  have "reflect_double cw ch p = Some (p\<lparr>p_vx := vx', p_vy := vy'\<rparr>)"
    using vx(1) vy(1) by (simp add: reflect_double_def vx'_def vy'_def)
  moreover have "\<bar>vx'\<bar> \<le> 2 ^ Suc n" "\<bar>vy'\<bar> \<le> 2 ^ Suc n"
    using vx(2) vy(2) a b by (simp_all add: vx'_def vy'_def)
  ultimately show ?thesis by simp
qed

lemma attract_double_defined:
  assumes "\<bar>fst m\<bar> \<le> 2 ^ n" "\<bar>snd m\<bar> \<le> 2 ^ n" "\<bar>p_x p\<bar> \<le> 2 ^ n" "\<bar>p_y p\<bar> \<le> 2 ^ n"
    and "\<bar>p_vx p\<bar> \<le> 2 ^ n" "\<bar>p_vy p\<bar> \<le> 2 ^ n" "n \<le> 300"
  shows "\<exists>p3. attract_double m p = Some p3 \<and> p_x p3 = p_x p \<and> p_y p3 = p_y p \<and>
           \<bar>p_vx p3\<bar> \<le> 2 ^ (n + 15) \<and> \<bar>p_vy p3\<bar> \<le> 2 ^ (n + 15)"
proof -
  have "\<bar>fst m - p_x p\<bar> \<le> 2 ^ Suc n" using assms(1,3) by (rule pow2_diff)
  from fl_bounded [OF this] assms(7) obtain dx where
    dx: "fl (fst m - p_x p) = Some dx" "\<bar>dx\<bar> \<le> 2 ^ (n + 2)" by (auto simp add: ac_simps)
  have "\<bar>snd m - p_y p\<bar> \<le> 2 ^ Suc n" using assms(2,4) by (rule pow2_diff)
  from fl_bounded [OF this] assms(7) obtain dy where
    dy: "fl (snd m - p_y p) = Some dy" "\<bar>dy\<bar> \<le> 2 ^ (n + 2)" by (auto simp add: ac_simps)
  from sqrt_sum_squares_defined [OF dx(2) dy(2)] assms(7) obtain distance where
    distance: "sqrt_sum_squares dx dy = Some distance" "0 \<le> distance" by (auto simp add: ac_simps)
  show ?thesis
  proof (cases "distance < 100")
    case False
    have "attract_double m p = Some p"
      using False by (simp add: attract_double_def dx(1) dy(1) distance(1))
    moreover have "\<bar>p_vx p\<bar> \<le> 2 ^ (n + 15)" using assms(5) by (rule pow2_mono) simp
    moreover have "\<bar>p_vy p\<bar> \<le> 2 ^ (n + 15)" using assms(6) by (rule pow2_mono) simp
    ultimately show ?thesis by simp
  next
    case True
    have "\<bar>100 - distance\<bar> \<le> 2 ^ 7" using True distance(2) by simp
    from fl_bounded [OF this] obtain d where
      d: "fl (100 - distance) = Some d" "\<bar>d\<bar> \<le> 2 ^ 8" by (auto simp add: ac_simps)
    have "\<bar>d / 100\<bar> \<le> 2 ^ 8" using d(2) by simp
    from fl_bounded [OF this] obtain force where
      force: "fl (d / 100) = Some force" "\<bar>force\<bar> \<le> 2 ^ 9" by (auto simp add: ac_simps)
    have small: "\<bar>double_0_0001\<bar> \<le> 2 ^ 0" by (simp add: double_0_0001_def)
    have step: "\<exists>v. (do { f \<leftarrow> fl (c * force);
                        a \<leftarrow> fl (f * double_0_0001);
                        fl (w + a) }) = Some v \<and> \<bar>v\<bar> \<le> 2 ^ (n + 15)"
      if c: "\<bar>c\<bar> \<le> 2 ^ (n + 2)" and w: "\<bar>w\<bar> \<le> 2 ^ n" for c w
    proof -
      have "\<bar>c * force\<bar> \<le> 2 ^ (n + 2 + 9)" using c force(2) by (rule pow2_mult)
      from fl_bounded [OF this] assms(7) obtain f where
        f: "fl (c * force) = Some f" "\<bar>f\<bar> \<le> 2 ^ (n + 12)" by (auto simp add: ac_simps)
      have "\<bar>f * double_0_0001\<bar> \<le> 2 ^ (n + 12 + 0)" using f(2) small by (rule pow2_mult)
      from fl_bounded [OF this] assms(7) obtain a where
        a: "fl (f * double_0_0001) = Some a" "\<bar>a\<bar> \<le> 2 ^ (n + 13)" by (auto simp add: ac_simps)
      have "\<bar>w\<bar> \<le> 2 ^ (n + 13)" using w by (rule pow2_mono) simp
      then have "\<bar>w + a\<bar> \<le> 2 ^ Suc (n + 13)" using a(2) by (rule pow2_add)
      from fl_bounded [OF this] assms(7) obtain v where
        v: "fl (w + a) = Some v" "\<bar>v\<bar> \<le> 2 ^ (n + 15)" by (auto simp add: ac_simps)
      show ?thesis using f(1) a(1) v by simp
    qed
    from step [OF dx(2) assms(5)] obtain vx where
      vx: "(do { f \<leftarrow> fl (dx * force); a \<leftarrow> fl (f * double_0_0001); fl (p_vx p + a) }) = Some vx"
      "\<bar>vx\<bar> \<le> 2 ^ (n + 15)" by blast
    from step [OF dy(2) assms(6)] obtain vy where
      vy: "(do { f \<leftarrow> fl (dy * force); a \<leftarrow> fl (f * double_0_0001); fl (p_vy p + a) }) = Some vy"
      "\<bar>vy\<bar> \<le> 2 ^ (n + 15)" by blast
    have "attract_double m p = Some (p\<lparr>p_vx := vx, p_vy := vy\<rparr>)"
      using True vx(1) vy(1)
      by (auto simp add: attract_double_def dx(1) dy(1) distance(1) d(1) force(1)
          bind_eq_Some_conv)
    then show ?thesis using vx(2) vy(2) by simp
  qed
qed

lemma limit_speed_double_defined:
  assumes "\<bar>p_vx p\<bar> \<le> 2 ^ n" "\<bar>p_vy p\<bar> \<le> 2 ^ n" "n \<le> 400"
  shows "\<exists>p'. limit_speed_double p = Some p' \<and> p_x p' = p_x p \<and> p_y p' = p_y p"
proof -
  from sqrt_sum_squares_defined [OF assms] obtain speed where
    speed: "sqrt_sum_squares (p_vx p) (p_vy p) = Some speed" by (auto simp add: ac_simps)
  show ?thesis
  proof (cases "speed > 2")
    case False
    then have "limit_speed_double p = Some p"
      by (simp add: limit_speed_double_def speed)
    then show ?thesis by simp
  next
    case True
    have step: "\<exists>v. (do { q \<leftarrow> fl (c / speed); fl (q * 2) }) = Some v"
      if c: "\<bar>c\<bar> \<le> 2 ^ n" for c
    proof -
      have "\<bar>c / speed\<bar> = \<bar>c\<bar> / speed" using True by simp
      also have "\<dots> \<le> \<bar>c\<bar> / 1" using True by (intro divide_left_mono) simp_all
      finally have "\<bar>c / speed\<bar> \<le> 2 ^ n" using c by simp
      from fl_bounded [OF this] assms(3) obtain q where
        q: "fl (c / speed) = Some q" "\<bar>q\<bar> \<le> 2 ^ Suc n" by (auto simp add: ac_simps)
      have "\<bar>q * 2\<bar> \<le> 2 ^ Suc (Suc n)" using q(2) by simp
      from fl_bounded [OF this] assms(3) obtain v where "fl (q * 2) = Some v" by (auto simp add: ac_simps)
      then show ?thesis using q(1) by simp
    qed
    from step [OF assms(1)] obtain vx where
      vx: "(do { q \<leftarrow> fl (p_vx p / speed); fl (q * 2) }) = Some vx" by blast
    from step [OF assms(2)] obtain vy where
      vy: "(do { q \<leftarrow> fl (p_vy p / speed); fl (q * 2) }) = Some vy" by blast
    have "limit_speed_double p = Some (p\<lparr>p_vx := vx, p_vy := vy\<rparr>)"
      using True vx vy by (auto simp add: limit_speed_double_def speed bind_eq_Some_conv)
    then show ?thesis by simp
  qed
qed

lemma update_particle_double_defined:
  assumes "\<bar>fst m\<bar> \<le> 2 ^ n" "\<bar>snd m\<bar> \<le> 2 ^ n" "\<bar>p_x p\<bar> \<le> 2 ^ n" "\<bar>p_y p\<bar> \<le> 2 ^ n"
    and "\<bar>p_vx p\<bar> \<le> 2 ^ n" "\<bar>p_vy p\<bar> \<le> 2 ^ n" "n \<le> 200"
  shows "\<exists>p'. update_particle_double m cw ch p = Some p' \<and>
           \<bar>p_x p'\<bar> \<le> 2 ^ (n + 2) \<and> \<bar>p_y p'\<bar> \<le> 2 ^ (n + 2)"
proof -
  from integrate_double_defined [OF assms(3-6)] assms(7) obtain p1 where
    p1: "integrate_double p = Some p1" "\<bar>p_x p1\<bar> \<le> 2 ^ (n + 2)" "\<bar>p_y p1\<bar> \<le> 2 ^ (n + 2)"
      "p_vx p1 = p_vx p" "p_vy p1 = p_vy p" by (auto simp add: ac_simps)
  have "\<bar>p_vx p1\<bar> \<le> 2 ^ n" "\<bar>p_vy p1\<bar> \<le> 2 ^ n" using p1(4,5) assms(5,6) by simp_all
  from reflect_double_defined [OF this, of cw ch] assms(7) obtain p2 where
    p2: "reflect_double cw ch p1 = Some p2" "p_x p2 = p_x p1" "p_y p2 = p_y p1"
      "\<bar>p_vx p2\<bar> \<le> 2 ^ Suc n" "\<bar>p_vy p2\<bar> \<le> 2 ^ Suc n" by (auto simp add: ac_simps)
  have a: "\<bar>fst m\<bar> \<le> 2 ^ (n + 2)" "\<bar>snd m\<bar> \<le> 2 ^ (n + 2)"
    using assms(1,2) by (auto intro: pow2_mono)
  have b: "\<bar>p_x p2\<bar> \<le> 2 ^ (n + 2)" "\<bar>p_y p2\<bar> \<le> 2 ^ (n + 2)"
    using p1(2,3) p2(2,3) by simp_all
  have c: "\<bar>p_vx p2\<bar> \<le> 2 ^ (n + 2)" "\<bar>p_vy p2\<bar> \<le> 2 ^ (n + 2)"
    using p2(4,5) by (auto intro: pow2_mono)
  from attract_double_defined [OF a b c] assms(7) obtain p3 where
    p3: "attract_double m p2 = Some p3" "p_x p3 = p_x p2" "p_y p3 = p_y p2"
      "\<bar>p_vx p3\<bar> \<le> 2 ^ (n + 2 + 15)" "\<bar>p_vy p3\<bar> \<le> 2 ^ (n + 2 + 15)" by (auto simp add: ac_simps)
  from limit_speed_double_defined [OF p3(4,5)] assms(7) obtain p' where
    p': "limit_speed_double p3 = Some p'" "p_x p' = p_x p3" "p_y p' = p_y p3" by (auto simp add: ac_simps)
  have "update_particle_double m cw ch p = Some p'"
    by (simp add: update_particle_double_def p1(1) p2(1) p3(1) p'(1))
  then show ?thesis using p'(2,3) p3(2,3) b by simp
qed

subsection \<open>Speed after a tick\<close>

text \<open>
  A tick evaluated in doubles. The particle moves at \<open>(-1.95, 0.91)\<close>, the doubles
  nearest to these literals; the mouse is out of reach and no border is crossed.
\<close>

lemma literal_velocity_example:
  "fl (- (195 / 100)) = Some (- 8782019273372467 / 4503599627370496)"
  "fl (91 / 100) = Some (8196551321814303 / 9007199254740992)"
  using fl_eqI [of 0 "- (195 / 100)" "- 8782019273372467"] fl_eqI [of "- 1" "91 / 100" 8196551321814303]
  by simp_all






subsection \<open>Connecting lines\<close>

text \<open>
  What a tick draws: for each particle in turn its disc, then one line to each later
  particle within reach. The distance is taken from the particle just updated to a
  later particle that this tick has not moved yet.
\<close>

lemma connect_double_cases:
  assumes "connect_double p other = Some l"
  shows "\<exists>d. distance_double p other = Some d \<and>
           (if d < 80
            then \<exists>a. opacity_double d = Some a \<and>
                   l = [Line (p_x p) (p_y p) (p_x other) (p_y other) a]
            else l = [])"
  using assms by (auto simp add: connect_double_def bind_eq_Some_conv split: if_splits)

lemma connect_all_double_lines:
  assumes "connect_all_double p rest = Some ls"
  shows "(\<forall>j<length rest. \<exists>d. distance_double p (rest ! j) = Some d \<and>
            (d < 80 \<longrightarrow> (\<exists>a. opacity_double d = Some a \<and>
               Line (p_x p) (p_y p) (p_x (rest ! j)) (p_y (rest ! j)) a \<in> set ls))) \<and>
         (\<forall>l\<in>set ls. \<exists>j<length rest. \<exists>d a. distance_double p (rest ! j) = Some d \<and> d < 80 \<and>
            opacity_double d = Some a \<and>
            l = Line (p_x p) (p_y p) (p_x (rest ! j)) (p_y (rest ! j)) a)"
  using assms
proof (induction rest arbitrary: ls)
  case Nil
  then show ?case by simp
next
  case (Cons other rest)
  from Cons.prems obtain l ls' where
    l: "connect_double p other = Some l" and ls': "connect_all_double p rest = Some ls'"
    and ls: "ls = l @ ls'"
    by (auto simp add: bind_eq_Some_conv)
  from connect_double_cases [OF l] obtain d where
    d: "distance_double p other = Some d"
    and l': "if d < 80
            then \<exists>a. opacity_double d = Some a \<and>
                   l = [Line (p_x p) (p_y p) (p_x other) (p_y other) a]
            else l = []"
    by blast
  note IH = Cons.IH [OF ls']
  show ?case
  proof (intro conjI allI impI ballI)
    fix j assume j: "j < length (other # rest)"
    show "\<exists>d. distance_double p ((other # rest) ! j) = Some d \<and>
            (d < 80 \<longrightarrow> (\<exists>a. opacity_double d = Some a \<and>
               Line (p_x p) (p_y p) (p_x ((other # rest) ! j)) (p_y ((other # rest) ! j)) a \<in> set ls))"
    proof (cases j)
      case 0
      with d l' ls show ?thesis by (auto split: if_splits)
    next
      case (Suc j')
      with j have "j' < length rest" by simp
      with IH obtain d' where "distance_double p (rest ! j') = Some d'"
        "d' < 80 \<longrightarrow> (\<exists>a. opacity_double d' = Some a \<and>
               Line (p_x p) (p_y p) (p_x (rest ! j')) (p_y (rest ! j')) a \<in> set ls')"
        by blast
      with Suc ls show ?thesis by auto
    qed
  next
    fix x assume "x \<in> set ls"
    then consider "x \<in> set l" | "x \<in> set ls'" using ls by auto
    then show "\<exists>j<length (other # rest). \<exists>d a. distance_double p ((other # rest) ! j) = Some d \<and>
            d < 80 \<and> opacity_double d = Some a \<and>
            x = Line (p_x p) (p_y p) (p_x ((other # rest) ! j)) (p_y ((other # rest) ! j)) a"
    proof cases
      case 1
      with l' d have "d < 80 \<and> (\<exists>a. opacity_double d = Some a \<and>
          x = Line (p_x p) (p_y p) (p_x other) (p_y other) a)"
        by (auto split: if_splits)
      with d show ?thesis by (intro exI [of _ 0]) auto
    next
      case 2
      with IH obtain j d' a where "j < length rest" "distance_double p (rest ! j) = Some d'"
        "d' < 80" "opacity_double d' = Some a"
        "x = Line (p_x p) (p_y p) (p_x (rest ! j)) (p_y (rest ! j)) a"
        by blast
      then show ?thesis by (intro exI [of _ "Suc j"]) auto
    qed
  qed
qed

lemma particles_forEach_double_lines:
  assumes "particles_forEach_double m cw ch ps = Some (ps', ds)"
  shows "length ps' = length ps \<and>
         (\<forall>i<length ps. update_particle_double m cw ch (ps ! i) = Some (ps' ! i)) \<and>
         (\<forall>i j. i < j \<and> j < length ps \<longrightarrow>
            (\<exists>d. distance_double (ps' ! i) (ps ! j) = Some d \<and>
               (d < 80 \<longrightarrow> (\<exists>a. opacity_double d = Some a \<and>
                  Line (p_x (ps' ! i)) (p_y (ps' ! i)) (p_x (ps ! j)) (p_y (ps ! j)) a \<in> set ds)))) \<and>
         (\<forall>x1 y1 x2 y2 a. Line x1 y1 x2 y2 a \<in> set ds \<longrightarrow>
            (\<exists>i j d. i < j \<and> j < length ps \<and>
               distance_double (ps' ! i) (ps ! j) = Some d \<and> d < 80 \<and>
               opacity_double d = Some a \<and>
               x1 = p_x (ps' ! i) \<and> y1 = p_y (ps' ! i) \<and>
               x2 = p_x (ps ! j) \<and> y2 = p_y (ps ! j)))"
  using assms
proof (induction ps arbitrary: ps' ds)
  case Nil
  then show ?case by simp
next
  case (Cons p rest)
  from Cons.prems obtain p' ls rs' rds where
    p': "update_particle_double m cw ch p = Some p'"
    and ls: "connect_all_double p' rest = Some ls"
    and r: "particles_forEach_double m cw ch rest = Some (rs', rds)"
    and ps': "ps' = p' # rs'"
    and ds: "ds = Arc (p_x p') (p_y p') (p_size p') (p_color p') # ls @ rds"
    by (auto simp add: bind_eq_Some_conv)
  note IH = Cons.IH [OF r]
  note C = connect_all_double_lines [OF ls]
  have len: "length rs' = length rest" using IH by blast
  show ?case
  proof (intro conjI allI impI)
    show "length ps' = length (p # rest)" using len ps' by simp
  next
    fix i assume "i < length (p # rest)"
    then show "update_particle_double m cw ch ((p # rest) ! i) = Some (ps' ! i)"
      using p' IH ps' by (cases i) auto
  next
    fix i j assume ij: "i < j \<and> j < length (p # rest)"
    then obtain j' where j': "j = Suc j'" "j' < length rest" by (cases j) auto
    show "\<exists>d. distance_double (ps' ! i) ((p # rest) ! j) = Some d \<and>
               (d < 80 \<longrightarrow> (\<exists>a. opacity_double d = Some a \<and>
                  Line (p_x (ps' ! i)) (p_y (ps' ! i)) (p_x ((p # rest) ! j))
                    (p_y ((p # rest) ! j)) a \<in> set ds))"
    proof (cases i)
      case 0
      from C j'(2) obtain d where "distance_double p' (rest ! j') = Some d"
        "d < 80 \<longrightarrow> (\<exists>a. opacity_double d = Some a \<and>
               Line (p_x p') (p_y p') (p_x (rest ! j')) (p_y (rest ! j')) a \<in> set ls)"
        by blast
      with 0 j' ps' ds show ?thesis by auto
    next
      case (Suc i')
      with ij j' have "i' < j' \<and> j' < length rest" by simp
      with IH obtain d where "distance_double (rs' ! i') (rest ! j') = Some d"
        "d < 80 \<longrightarrow> (\<exists>a. opacity_double d = Some a \<and>
               Line (p_x (rs' ! i')) (p_y (rs' ! i')) (p_x (rest ! j')) (p_y (rest ! j')) a
                 \<in> set rds)"
        by blast
      with Suc j' ps' ds show ?thesis by auto
    qed
  next
    fix x1 y1 x2 y2 a assume "Line x1 y1 x2 y2 a \<in> set ds"
    then consider "Line x1 y1 x2 y2 a \<in> set ls" | "Line x1 y1 x2 y2 a \<in> set rds"
      using ds by auto
    then show "\<exists>i j d. i < j \<and> j < length (p # rest) \<and>
               distance_double (ps' ! i) ((p # rest) ! j) = Some d \<and> d < 80 \<and>
               opacity_double d = Some a \<and>
               x1 = p_x (ps' ! i) \<and> y1 = p_y (ps' ! i) \<and>
               x2 = p_x ((p # rest) ! j) \<and> y2 = p_y ((p # rest) ! j)"
    proof cases
      case 1
      with C obtain j d a' where "j < length rest" "distance_double p' (rest ! j) = Some d"
        "d < 80" "opacity_double d = Some a'"
        "Line x1 y1 x2 y2 a = Line (p_x p') (p_y p') (p_x (rest ! j)) (p_y (rest ! j)) a'"
        by blast
      then show ?thesis
        using ps' by (intro exI [of _ 0] exI [of _ "Suc j"] exI [of _ d]) auto
    next
      case 2
      with IH obtain i j d where "i < j" "j < length rest"
        "distance_double (rs' ! i) (rest ! j) = Some d" "d < 80" "opacity_double d = Some a"
        "x1 = p_x (rs' ! i)" "y1 = p_y (rs' ! i)" "x2 = p_x (rest ! j)" "y2 = p_y (rest ! j)"
        by blast
      then show ?thesis
        using ps' by (intro exI [of _ "Suc i"] exI [of _ "Suc j"] exI [of _ d]) auto
    qed
  qed
qed

lemma connect_all_double_concat:
  assumes "connect_all_double p rest = Some ls"
  shows "ls = concat (map (\<lambda>other. the (connect_double p other)) rest)"
  using assms
proof (induction rest arbitrary: ls)
  case Nil
  then show ?case by simp
next
  case (Cons other rest)
  from Cons.prems obtain l ls' where
    "connect_double p other = Some l" "connect_all_double p rest = Some ls'" "ls = l @ ls'"
    by (auto simp add: bind_eq_Some_conv)
  with Cons.IH [of ls'] show ?case by simp
qed

lemma upt_0_Suc: "[0..<Suc n] = 0 # map Suc [0..<n]"
proof -
  have "[0..<Suc n] = 0 # [Suc 0..<Suc n]" by (rule upt_conv_Cons) simp
  then show ?thesis by (simp only: map_Suc_upt)
qed

lemma particles_forEach_double_draws:
  assumes "particles_forEach_double m cw ch ps = Some (ps', ds)"
  shows "ds = concat (map (\<lambda>i. Arc (p_x (ps' ! i)) (p_y (ps' ! i)) (p_size (ps' ! i)) (p_color (ps' ! i)) #
                 concat (map (\<lambda>other. the (connect_double (ps' ! i) other)) (drop (Suc i) ps)))
               [0..<length ps])"
  using assms
proof (induction ps arbitrary: ps' ds)
  case Nil
  then show ?case by simp
next
  case (Cons p rest)
  from Cons.prems obtain p' ls rs' rds where
    p': "update_particle_double m cw ch p = Some p'"
    and ls: "connect_all_double p' rest = Some ls"
    and r: "particles_forEach_double m cw ch rest = Some (rs', rds)"
    and ps': "ps' = p' # rs'"
    and ds: "ds = Arc (p_x p') (p_y p') (p_size p') (p_color p') # ls @ rds"
    by (auto simp add: bind_eq_Some_conv)
  note IH = Cons.IH [OF r]
  note C = connect_all_double_concat [OF ls]
  show ?case
    unfolding ds ps' length_Cons upt_0_Suc
    by (simp add: C IH [symmetric] comp_def del: upt_Suc)
qed

lemma connect_double_pair:
  assumes "connect_double p other = Some l"
  shows "\<exists>d. distance_double p other = Some d \<and>
           (d < 80 \<longrightarrow> (\<exists>a. opacity_double d = Some a \<and>
              connect_double p other = Some [Line (p_x p) (p_y p) (p_x other) (p_y other) a])) \<and>
           (80 \<le> d \<longrightarrow> connect_double p other = Some [])"
  using assms by (auto simp add: connect_double_def bind_eq_Some_conv split: if_splits)

lemma connect_all_double_members:
  assumes "connect_all_double p rest = Some ls" "other \<in> set rest"
  shows "\<exists>l. connect_double p other = Some l"
  using assms
  by (induction rest arbitrary: ls) (auto simp add: bind_eq_Some_conv)

lemma particles_forEach_double_pairs:
  assumes "particles_forEach_double m cw ch ps = Some (ps', ds)" "i < j" "j < length ps"
  shows "\<exists>l. connect_double (ps' ! i) (ps ! j) = Some l"
  using assms
proof (induction ps arbitrary: ps' ds i j)
  case Nil
  then show ?case by simp
next
  case (Cons p rest)
  from Cons.prems(1) obtain p' ls rs' rds where
    ls: "connect_all_double p' rest = Some ls"
    and r: "particles_forEach_double m cw ch rest = Some (rs', rds)"
    and ps': "ps' = p' # rs'"
    by (auto simp add: bind_eq_Some_conv)
  from Cons.prems(2,3) obtain j' where j': "j = Suc j'" "j' < length rest" by (cases j) auto
  show ?case
  proof (cases i)
    case 0
    have "rest ! j' \<in> set rest" using j'(2) by simp
    from connect_all_double_members [OF ls this] show ?thesis using 0 j' ps' by simp
  next
    case (Suc i')
    with Cons.prems(2) j' have "i' < j'" by simp
    from Cons.IH [OF r this j'(2)] show ?thesis using Suc j' ps' by simp
  qed
qed

lemma distance_double_defined:
  assumes "\<bar>p_x p\<bar> \<le> 2 ^ n" "\<bar>p_y p\<bar> \<le> 2 ^ n" "\<bar>p_x other\<bar> \<le> 2 ^ n" "\<bar>p_y other\<bar> \<le> 2 ^ n"
    and "n \<le> 300"
  shows "\<exists>d. distance_double p other = Some d \<and> 0 \<le> d"
proof -
  have "\<bar>p_x p - p_x other\<bar> \<le> 2 ^ Suc n" using assms(1,3) by (rule pow2_diff)
  from fl_bounded [OF this] assms(5) obtain dx where
    dx: "fl (p_x p - p_x other) = Some dx" "\<bar>dx\<bar> \<le> 2 ^ (n + 2)" by (auto simp add: ac_simps)
  have "\<bar>p_y p - p_y other\<bar> \<le> 2 ^ Suc n" using assms(2,4) by (rule pow2_diff)
  from fl_bounded [OF this] assms(5) obtain dy where
    dy: "fl (p_y p - p_y other) = Some dy" "\<bar>dy\<bar> \<le> 2 ^ (n + 2)" by (auto simp add: ac_simps)
  from sqrt_sum_squares_defined [OF dx(2) dy(2)] assms(5) obtain d where
    "sqrt_sum_squares dx dy = Some d" "0 \<le> d" by auto
  then show ?thesis by (simp add: distance_double_def dx(1) dy(1))
qed

lemma opacity_double_defined:
  assumes "0 \<le> d" "d < 80"
  shows "\<exists>a. opacity_double d = Some a"
proof -
  have "\<bar>80 - d\<bar> \<le> 2 ^ 7" using assms by simp
  from fl_bounded [OF this] obtain t where
    t: "fl (80 - d) = Some t" "\<bar>t\<bar> \<le> 2 ^ 8" by auto
  have "\<bar>t / 80\<bar> \<le> 2 ^ 8" using t(2) by simp
  from fl_bounded [OF this] obtain r where
    r: "fl (t / 80) = Some r" "\<bar>r\<bar> \<le> 2 ^ 9" by auto
  have "\<bar>double_0_2\<bar> \<le> 2 ^ 0" by (simp add: double_0_2_def)
  with r(2) have "\<bar>r * double_0_2\<bar> \<le> 2 ^ (9 + 0)" by (rule pow2_mult)
  from fl_bounded [OF this] obtain a where "fl (r * double_0_2) = Some a" by auto
  then show ?thesis by (simp add: opacity_double_def t(1) r(1))
qed

lemma connect_double_defined:
  assumes "\<bar>p_x p\<bar> \<le> 2 ^ n" "\<bar>p_y p\<bar> \<le> 2 ^ n" "\<bar>p_x other\<bar> \<le> 2 ^ n" "\<bar>p_y other\<bar> \<le> 2 ^ n"
    and "n \<le> 300"
  shows "\<exists>l. connect_double p other = Some l"
proof -
  from distance_double_defined [OF assms] obtain d where
    d: "distance_double p other = Some d" "0 \<le> d" by blast
  show ?thesis
  proof (cases "d < 80")
    case True
    from opacity_double_defined [OF d(2) True] obtain a where "opacity_double d = Some a" ..
    then show ?thesis using True by (simp add: connect_double_def d(1))
  next
    case False
    then show ?thesis by (simp add: connect_double_def d(1))
  qed
qed

lemma connect_all_double_total:
  assumes "\<bar>p_x p\<bar> \<le> 2 ^ n" "\<bar>p_y p\<bar> \<le> 2 ^ n" "n \<le> 300"
    and "\<forall>other\<in>set rest. \<bar>p_x other\<bar> \<le> 2 ^ n \<and> \<bar>p_y other\<bar> \<le> 2 ^ n"
  shows "\<exists>ls. connect_all_double p rest = Some ls"
  using assms(4)
proof (induction rest)
  case Nil
  show ?case by simp
next
  case (Cons other rest)
  then have o: "\<bar>p_x other\<bar> \<le> 2 ^ n" "\<bar>p_y other\<bar> \<le> 2 ^ n" by simp_all
  from connect_double_defined [OF assms(1,2) o assms(3)] obtain l where
    l: "connect_double p other = Some l" ..
  from Cons obtain ls where "connect_all_double p rest = Some ls" by auto
  then show ?case using l by simp
qed

lemma particles_forEach_double_defined:
  assumes "\<bar>fst m\<bar> \<le> 2 ^ n" "\<bar>snd m\<bar> \<le> 2 ^ n" "n \<le> 200"
    and "\<forall>p\<in>set ps. \<bar>p_x p\<bar> \<le> 2 ^ n \<and> \<bar>p_y p\<bar> \<le> 2 ^ n \<and> \<bar>p_vx p\<bar> \<le> 2 ^ n \<and> \<bar>p_vy p\<bar> \<le> 2 ^ n"
  shows "\<exists>r. particles_forEach_double m cw ch ps = Some r"
  using assms(4)
proof (induction ps)
  case Nil
  show ?case by simp
next
  case (Cons p rest)
  then have p: "\<bar>p_x p\<bar> \<le> 2 ^ n" "\<bar>p_y p\<bar> \<le> 2 ^ n" "\<bar>p_vx p\<bar> \<le> 2 ^ n" "\<bar>p_vy p\<bar> \<le> 2 ^ n"
    by simp_all
  from update_particle_double_defined [OF assms(1,2) p assms(3), of cw ch] obtain p' where
    p': "update_particle_double m cw ch p = Some p'"
      "\<bar>p_x p'\<bar> \<le> 2 ^ (n + 2)" "\<bar>p_y p'\<bar> \<le> 2 ^ (n + 2)" by blast
  have "\<forall>other\<in>set rest. \<bar>p_x other\<bar> \<le> 2 ^ (n + 2) \<and> \<bar>p_y other\<bar> \<le> 2 ^ (n + 2)"
    using Cons.prems by (auto intro: pow2_mono)
  from connect_all_double_total [OF p'(2,3) _ this] assms(3) obtain ls where
    ls: "connect_all_double p' rest = Some ls" by auto
  from Cons obtain r where "particles_forEach_double m cw ch rest = Some r" by auto
  then show ?case using p'(1) ls by simp
qed

lemma sqrt_sum_squares_nonneg:
  assumes "sqrt_sum_squares a b = Some s"
  shows "0 \<le> s"
proof -
  from assms obtain xx yy t where
    xx: "fl (a * a) = Some xx" and yy: "fl (b * b) = Some yy" and
    t: "fl (xx + yy) = Some t" and s: "fl (sqrt t) = Some s"
    by (auto simp add: sqrt_sum_squares_def bind_eq_Some_conv)
  have "0 \<le> xx" "0 \<le> yy" using fl_nonneg [OF xx] fl_nonneg [OF yy] by simp_all
  then have "0 \<le> t" using fl_nonneg [OF t] by simp
  then show ?thesis using fl_nonneg [OF s] by simp
qed

lemma distance_double_nonneg:
  assumes "distance_double p other = Some d"
  shows "0 \<le> d"
  using assms sqrt_sum_squares_nonneg
  by (auto simp add: distance_double_def bind_eq_Some_conv)

text \<open>The computed opacity is the exact \<open>(80 - d) / 80 * 0.2\<close> up to rounding.\<close>

lemma opacity_double_error:
  assumes "opacity_double d = Some a" "0 \<le> d" "d < 80"
  shows "\<bar>a - (80 - d) / 80 * (2 / 10)\<bar> \<le> 9 * unit_roundoff"
proof -
  define u where "u = unit_roundoff"
  define h where "h = underflow_error"
  define X where "X = (80 - d) / 80"
  define c where "c = double_0_2"
  have u: "0 < u" "u \<le> 1 / 8" by (simp_all add: u_def unit_roundoff_def)
  have h: "0 < h" "h \<le> u" by (simp_all add: h_def u_def underflow_error_def unit_roundoff_def)
  have c: "0 \<le> c" "c \<le> 1" "\<bar>c - 2 / 10\<bar> \<le> u"
    by (simp_all add: c_def double_0_2_def u_def unit_roundoff_def)
  have X: "0 \<le> X" "X \<le> 1" using assms(2,3) by (simp_all add: X_def)
  from assms(1) obtain t r where
    t: "fl (80 - d) = Some t" and r: "fl (t / 80) = Some r" and a: "fl (r * c) = Some a"
    by (auto simp add: opacity_double_def bind_eq_Some_conv c_def)
  have "\<bar>t - (80 - d)\<bar> \<le> u * \<bar>80 - d\<bar> + h" using fl_error [OF t] by (simp add: u_def h_def)
  also have "u * \<bar>80 - d\<bar> \<le> u * 80" using u(1) assms(2,3) by (intro mult_left_mono) simp_all
  finally have 1: "\<bar>t - (80 - d)\<bar> \<le> 80 * u + h" by simp
  have "t / 80 - X = (t - (80 - d)) / 80" by (simp add: X_def diff_divide_distrib)
  then have "\<bar>t / 80 - X\<bar> = \<bar>t - (80 - d)\<bar> / 80" by (simp only: abs_divide abs_numeral)
  with 1 have 2: "\<bar>t / 80 - X\<bar> \<le> 2 * u" using h by simp
  have 3: "\<bar>t / 80\<bar> \<le> 2" using 2 X u by linarith
  have "\<bar>r - t / 80\<bar> \<le> u * \<bar>t / 80\<bar> + h" using fl_error [OF r] by (simp add: u_def h_def)
  also have "u * \<bar>t / 80\<bar> \<le> u * 2" using u(1) 3 by (intro mult_left_mono) simp_all
  finally have 4: "\<bar>r - t / 80\<bar> \<le> 3 * u" using h by simp
  have 5: "\<bar>r - X\<bar> \<le> 5 * u" using 2 4 by linarith
  have 6: "\<bar>r\<bar> \<le> 2" using 5 X u by linarith
  have "\<bar>r * c\<bar> = \<bar>r\<bar> * c" using c(1) by (simp add: abs_mult)
  also have "\<dots> \<le> 2 * 1" using 6 c by (intro mult_mono) simp_all
  finally have 7: "\<bar>r * c\<bar> \<le> 2" by simp
  have "\<bar>a - r * c\<bar> \<le> u * \<bar>r * c\<bar> + h" using fl_error [OF a] by (simp add: u_def h_def)
  also have "u * \<bar>r * c\<bar> \<le> u * 2" using u(1) 7 by (intro mult_left_mono) simp_all
  finally have 8: "\<bar>a - r * c\<bar> \<le> 3 * u" using h by simp
  have "r * c - X * (2 / 10) = (r - X) * c + X * (c - 2 / 10)" by (simp add: algebra_simps)
  then have "\<bar>r * c - X * (2 / 10)\<bar> \<le> \<bar>(r - X) * c\<bar> + \<bar>X * (c - 2 / 10)\<bar>" by simp
  also have "\<bar>(r - X) * c\<bar> = \<bar>r - X\<bar> * c" using c(1) by (simp add: abs_mult)
  also have "\<dots> \<le> (5 * u) * 1" using 5 c u by (intro mult_mono) simp_all
  also have "\<bar>X * (c - 2 / 10)\<bar> = X * \<bar>c - 2 / 10\<bar>" using X(1) by (simp add: abs_mult)
  also have "\<dots> \<le> 1 * u" using X c(3) by (intro mult_mono) simp_all
  finally have 9: "\<bar>r * c - X * (2 / 10)\<bar> \<le> 6 * u" by simp
  have "\<bar>a - X * (2 / 10)\<bar> \<le> 9 * u" using 8 9 by linarith
  then show ?thesis by (simp add: X_def u_def)
qed

lemma particles_forEach_double_spec:
  assumes "particles_forEach_double m cw ch ps = Some (ps', ds)"
  shows "length ps' = length ps \<and>
         (\<forall>i<length ps. update_particle_double m cw ch (ps ! i) = Some (ps' ! i)) \<and>
         ds = concat (map (\<lambda>i. Arc (p_x (ps' ! i)) (p_y (ps' ! i)) (p_size (ps' ! i)) (p_color (ps' ! i)) #
                 concat (map (\<lambda>other. the (connect_double (ps' ! i) other)) (drop (Suc i) ps)))
               [0..<length ps]) \<and>
         (\<forall>i j. i < j \<and> j < length ps \<longrightarrow>
            (\<exists>d. distance_double (ps' ! i) (ps ! j) = Some d \<and>
               0 \<le> d \<and>
               (d < 80 \<longrightarrow> (\<exists>a. opacity_double d = Some a \<and>
                  connect_double (ps' ! i) (ps ! j) = Some [Line (p_x (ps' ! i)) (p_y (ps' ! i)) (p_x (ps ! j)) (p_y (ps ! j)) a] \<and>
                  Line (p_x (ps' ! i)) (p_y (ps' ! i)) (p_x (ps ! j)) (p_y (ps ! j)) a \<in> set ds)) \<and>
               (80 \<le> d \<longrightarrow> connect_double (ps' ! i) (ps ! j) = Some []))) \<and>
         (\<forall>x1 y1 x2 y2 a. Line x1 y1 x2 y2 a \<in> set ds \<longrightarrow>
            (\<exists>i j d. i < j \<and> j < length ps \<and>
               distance_double (ps' ! i) (ps ! j) = Some d \<and> d < 80 \<and>
               opacity_double d = Some a \<and>
               x1 = p_x (ps' ! i) \<and> y1 = p_y (ps' ! i) \<and>
               x2 = p_x (ps ! j) \<and> y2 = p_y (ps ! j)))"
proof -
  note L = particles_forEach_double_lines [OF assms]
  have pairs: "\<exists>d. distance_double (ps' ! i) (ps ! j) = Some d \<and>
               0 \<le> d \<and>
               (d < 80 \<longrightarrow> (\<exists>a. opacity_double d = Some a \<and>
                  connect_double (ps' ! i) (ps ! j) = Some [Line (p_x (ps' ! i)) (p_y (ps' ! i)) (p_x (ps ! j)) (p_y (ps ! j)) a] \<and>
                  Line (p_x (ps' ! i)) (p_y (ps' ! i)) (p_x (ps ! j)) (p_y (ps ! j)) a \<in> set ds)) \<and>
               (80 \<le> d \<longrightarrow> connect_double (ps' ! i) (ps ! j) = Some [])"
    if ij: "i < j \<and> j < length ps" for i j
  proof -
    from ij have "i < j" "j < length ps" by simp_all
    from particles_forEach_double_pairs [OF assms this] obtain l where
      l: "connect_double (ps' ! i) (ps ! j) = Some l" by blast
    from connect_double_pair [OF l] obtain d where
      d: "distance_double (ps' ! i) (ps ! j) = Some d"
      and lt: "d < 80 \<longrightarrow> (\<exists>a. opacity_double d = Some a \<and>
              connect_double (ps' ! i) (ps ! j) = Some [Line (p_x (ps' ! i)) (p_y (ps' ! i)) (p_x (ps ! j)) (p_y (ps ! j)) a])"
      and ge: "80 \<le> d \<longrightarrow> connect_double (ps' ! i) (ps ! j) = Some []"
      by blast
    from L ij obtain d' where
      d': "distance_double (ps' ! i) (ps ! j) = Some d'"
      and mem: "d' < 80 \<longrightarrow> (\<exists>a. opacity_double d' = Some a \<and>
                  Line (p_x (ps' ! i)) (p_y (ps' ! i)) (p_x (ps ! j)) (p_y (ps ! j)) a \<in> set ds)"
      by blast
    from d d' have "d' = d" by simp
    moreover have "0 \<le> d" using d by (rule distance_double_nonneg)
    ultimately show ?thesis using d lt ge mem by auto
  qed
  show ?thesis
  proof (intro conjI)
    show "length ps' = length ps" using L by blast
    show "\<forall>i<length ps. update_particle_double m cw ch (ps ! i) = Some (ps' ! i)"
      using L by blast
    show "ds = concat (map (\<lambda>i. Arc (p_x (ps' ! i)) (p_y (ps' ! i)) (p_size (ps' ! i)) (p_color (ps' ! i)) #
                 concat (map (\<lambda>other. the (connect_double (ps' ! i) other)) (drop (Suc i) ps)))
               [0..<length ps])"
      by (rule particles_forEach_double_draws [OF assms])
    show "\<forall>i j. i < j \<and> j < length ps \<longrightarrow>
            (\<exists>d. distance_double (ps' ! i) (ps ! j) = Some d \<and>
               0 \<le> d \<and>
               (d < 80 \<longrightarrow> (\<exists>a. opacity_double d = Some a \<and>
                  connect_double (ps' ! i) (ps ! j) = Some [Line (p_x (ps' ! i)) (p_y (ps' ! i)) (p_x (ps ! j)) (p_y (ps ! j)) a] \<and>
                  Line (p_x (ps' ! i)) (p_y (ps' ! i)) (p_x (ps ! j)) (p_y (ps ! j)) a \<in> set ds)) \<and>
               (80 \<le> d \<longrightarrow> connect_double (ps' ! i) (ps ! j) = Some []))"
      using pairs by blast
    show "\<forall>x1 y1 x2 y2 a. Line x1 y1 x2 y2 a \<in> set ds \<longrightarrow>
            (\<exists>i j d. i < j \<and> j < length ps \<and>
               distance_double (ps' ! i) (ps ! j) = Some d \<and> d < 80 \<and>
               opacity_double d = Some a \<and>
               x1 = p_x (ps' ! i) \<and> y1 = p_y (ps' ! i) \<and>
               x2 = p_x (ps ! j) \<and> y2 = p_y (ps ! j))"
      using L by blast
  qed
qed

lemma animateParticles_double_tick:
  assumes "\<not> isReducedMotion a" "canvas a = Some (cw, ch)"
    and "animateParticles_double a = Some (a', err)"
  shows "err = None \<and>
         particles_forEach_double (mouse a) cw ch (particles a)
           = Some (particles a', tl (drawn a')) \<and>
         drawn a' = ClearRect 0 0 cw ch # tl (drawn a') \<and>
         animationFrames a' = animationFrames a + 1"
  using assms by (auto simp add: animateParticles_double_def bind_eq_Some_conv)

lemma animateParticles_double_defined:
  assumes "\<not> isReducedMotion a" "canvas a = Some (cw, ch)"
    and "moderate (fst (mouse a))" "moderate (snd (mouse a))"
    and "\<forall>p\<in>set (particles a). moderate_particle p"
  shows "\<exists>b. animateParticles_double a = Some (b, None)"
proof -
  have "\<forall>p\<in>set (particles a).
          \<bar>p_x p\<bar> \<le> 2 ^ 100 \<and> \<bar>p_y p\<bar> \<le> 2 ^ 100 \<and> \<bar>p_vx p\<bar> \<le> 2 ^ 100 \<and> \<bar>p_vy p\<bar> \<le> 2 ^ 100"
    using assms(5) by (simp add: moderate_particle_def moderate_def)
  moreover have "\<bar>fst (mouse a)\<bar> \<le> 2 ^ 100" "\<bar>snd (mouse a)\<bar> \<le> 2 ^ 100"
    using assms(3,4) by (simp_all add: moderate_def)
  ultimately obtain r where "particles_forEach_double (mouse a) cw ch (particles a) = Some r"
    using particles_forEach_double_defined [of "mouse a" 100 "particles a" cw ch] by auto
  then show ?thesis using assms(1,2) by (simp add: animateParticles_double_def)
qed


text \<open>The opacity at distance 40 is the double nearest to \<open>0.1\<close>.\<close>

lemma double_of_tenth: "fl (1 / 10) = Some (3602879701896397 / 36028797018963968)"
  using fl_eqI [of "- 4" "1 / 10" 7205759403792794] by simp

lemma opacity_double_40: "opacity_double 40 = Some (3602879701896397 / 36028797018963968)"
proof -
  have o1: "fl (80 - 40) = Some 40"
    using fl_eqI [of 5 "80 - 40" 5629499534213120] by simp
  have o2: "fl (40 / 80) = Some (1 / 2)"
    using fl_eqI [of "- 1" "40 / 80" 4503599627370496] by simp
  have o3: "fl ((1 / 2) * (3602879701896397 / 18014398509481984)) = Some (3602879701896397 / 36028797018963968)"
    using fl_eqI [of "- 4" "(1 / 2) * (3602879701896397 / 18014398509481984)" 7205759403792794] by simp
  show ?thesis
    using o1 o2 o3 by (simp add: opacity_double_def double_0_2_def)
qed

text \<open>
  Two ticks evaluated in doubles, on a canvas of 100 by 100 with the mouse out of reach.
  Both particles move right by 1 per tick. In the first tick they are 40 apart before
  and after it; in the second they are 41 apart before and after it.
\<close>

lemma tick_example_40_apart:
  "particles_forEach_double (1000, 50) 100 100
     [\<lparr>p_x = 10, p_y = 50, p_vx = 1, p_vy = 0, p_size = 1, p_opacity = 1 / 2, p_color = 1 / 5\<rparr>,
      \<lparr>p_x = 50, p_y = 50, p_vx = 1, p_vy = 0, p_size = 1, p_opacity = 1 / 2, p_color = 1 / 5\<rparr>]
   = Some ([\<lparr>p_x = 11, p_y = 50, p_vx = 1, p_vy = 0, p_size = 1, p_opacity = 1 / 2, p_color = 1 / 5\<rparr>,
            \<lparr>p_x = 51, p_y = 50, p_vx = 1, p_vy = 0, p_size = 1, p_opacity = 1 / 2, p_color = 1 / 5\<rparr>],
           [Arc 11 50 1 (1 / 5),
            Line 11 50 50 50 (7385903388887613 / 72057594037927936),
            Arc 51 50 1 (1 / 5)])"
proof -
  have c1: "fl (10 + 1) = Some 11"
    using fl_eqI [of 3 "10 + 1" 6192449487634432] by simp
  have c2: "fl (50 + 0) = Some 50"
    using fl_eqI [of 5 "50 + 0" 7036874417766400] by simp
  have c3: "fl (1000 - 11) = Some 989"
    using fl_eqI [of 9 "1000 - 11" 8699335998963712] by simp
  have c4: "fl (50 - 50) = Some 0" by simp
  have c5: "fl (989 * 989) = Some 978121"
    using fl_eqI [of 19 "989 * 989" 8401995413061632] by simp
  have c6: "fl (0 * 0) = Some 0" by simp
  have c7: "fl (978121 + 0) = Some 978121"
    using fl_eqI [of 19 "978121 + 0" 8401995413061632] by simp
  have c8: "fl (sqrt 978121) = Some 989"
    using fl_sqrt_eqI [of 9 "978121" 8699335998963712] by (simp add: power2_eq_square)
  have c9: "fl (1 * 1) = Some 1"
    using fl_eqI [of 0 "1 * 1" 4503599627370496] by simp
  have c10: "fl (1 + 0) = Some 1"
    using fl_eqI [of 0 "1 + 0" 4503599627370496] by simp
  have c11: "fl (sqrt 1) = Some 1"
    using fl_sqrt_eqI [of 0 "1" 4503599627370496] by (simp add: power2_eq_square)
  have c12: "fl (11 - 50) = Some (- 39)"
    using fl_eqI [of 5 "11 - 50" "- 5488762045857792"] by simp
  have c13: "fl ((- 39) * (- 39)) = Some 1521"
    using fl_eqI [of 10 "(- 39) * (- 39)" 6689428743389184] by simp
  have c14: "fl (1521 + 0) = Some 1521"
    using fl_eqI [of 10 "1521 + 0" 6689428743389184] by simp
  have c15: "fl (sqrt 1521) = Some 39"
    using fl_sqrt_eqI [of 5 "1521" 5488762045857792] by (simp add: power2_eq_square)
  have c16: "fl (80 - 39) = Some 41"
    using fl_eqI [of 5 "80 - 39" 5770237022568448] by simp
  have c17: "fl (41 / 80) = Some (2308094809027379 / 4503599627370496)"
    using fl_eqI [of "- 1" "41 / 80" 4616189618054758] by simp
  have c18: "fl ((2308094809027379 / 4503599627370496) * (3602879701896397 / 18014398509481984)) = Some (7385903388887613 / 72057594037927936)"
    using fl_eqI [of "- 4" "(2308094809027379 / 4503599627370496) * (3602879701896397 / 18014398509481984)" 7385903388887613] by simp
  have c19: "fl (50 + 1) = Some 51"
    using fl_eqI [of 5 "50 + 1" 7177611906121728] by simp
  have c20: "fl (1000 - 51) = Some 949"
    using fl_eqI [of 9 "1000 - 51" 8347492278075392] by simp
  have c21: "fl (949 * 949) = Some 900601"
    using fl_eqI [of 19 "949 * 949" 7736103683489792] by simp
  have c22: "fl (900601 + 0) = Some 900601"
    using fl_eqI [of 19 "900601 + 0" 7736103683489792] by simp
  have c23: "fl (sqrt 900601) = Some 949"
    using fl_sqrt_eqI [of 9 "900601" 8347492278075392] by (simp add: power2_eq_square)
  show ?thesis
    using c1 c2 c3 c4 c5 c6 c7 c8 c9 c10 c11 c12 c13 c14 c15 c16 c17 c18 c19 c20 c21 c22 c23
    by (simp add: update_particle_double_def integrate_double_def reflect_double_def
        attract_double_def limit_speed_double_def sqrt_sum_squares_def connect_double_def
        distance_double_def opacity_double_def double_0_2_def)
qed

lemma distance_example_before:
  "distance_double
     \<lparr>p_x = 10, p_y = 50, p_vx = 1, p_vy = 0, p_size = 1, p_opacity = 1 / 2, p_color = 1 / 5\<rparr>
     \<lparr>p_x = 50, p_y = 50, p_vx = 1, p_vy = 0, p_size = 1, p_opacity = 1 / 2, p_color = 1 / 5\<rparr> = Some 40"
proof -
  have b1: "fl (10 - 50) = Some (- 40)"
    using fl_eqI [of 5 "10 - 50" "- 5629499534213120"] by simp
  have b2: "fl (50 - 50) = Some 0" by simp
  have b3: "fl ((- 40) * (- 40)) = Some 1600"
    using fl_eqI [of 10 "(- 40) * (- 40)" 7036874417766400] by simp
  have b4: "fl (0 * 0) = Some 0" by simp
  have b5: "fl (1600 + 0) = Some 1600"
    using fl_eqI [of 10 "1600 + 0" 7036874417766400] by simp
  have b6: "fl (sqrt 1600) = Some 40"
    using fl_sqrt_eqI [of 5 "1600" 5629499534213120] by (simp add: power2_eq_square)
  show ?thesis
    using b1 b2 b3 b4 b5 b6 by (simp add: distance_double_def sqrt_sum_squares_def)
qed

lemma distance_example_after:
  "distance_double
     \<lparr>p_x = 11, p_y = 50, p_vx = 1, p_vy = 0, p_size = 1, p_opacity = 1 / 2, p_color = 1 / 5\<rparr>
     \<lparr>p_x = 51, p_y = 50, p_vx = 1, p_vy = 0, p_size = 1, p_opacity = 1 / 2, p_color = 1 / 5\<rparr> = Some 40"
proof -
  have a1: "fl (11 - 51) = Some (- 40)"
    using fl_eqI [of 5 "11 - 51" "- 5629499534213120"] by simp
  have a2: "fl (50 - 50) = Some 0" by simp
  have a3: "fl ((- 40) * (- 40)) = Some 1600"
    using fl_eqI [of 10 "(- 40) * (- 40)" 7036874417766400] by simp
  have a4: "fl (0 * 0) = Some 0" by simp
  have a5: "fl (1600 + 0) = Some 1600"
    using fl_eqI [of 10 "1600 + 0" 7036874417766400] by simp
  have a6: "fl (sqrt 1600) = Some 40"
    using fl_sqrt_eqI [of 5 "1600" 5629499534213120] by (simp add: power2_eq_square)
  show ?thesis
    using a1 a2 a3 a4 a5 a6 by (simp add: distance_double_def sqrt_sum_squares_def)
qed

lemma tick_example_40_at_check:
  "particles_forEach_double (1000, 50) 100 100
     [\<lparr>p_x = 9, p_y = 50, p_vx = 1, p_vy = 0, p_size = 1, p_opacity = 1 / 2, p_color = 1 / 5\<rparr>,
      \<lparr>p_x = 50, p_y = 50, p_vx = 1, p_vy = 0, p_size = 1, p_opacity = 1 / 2, p_color = 1 / 5\<rparr>]
   = Some ([\<lparr>p_x = 10, p_y = 50, p_vx = 1, p_vy = 0, p_size = 1, p_opacity = 1 / 2, p_color = 1 / 5\<rparr>,
            \<lparr>p_x = 51, p_y = 50, p_vx = 1, p_vy = 0, p_size = 1, p_opacity = 1 / 2, p_color = 1 / 5\<rparr>],
           [Arc 10 50 1 (1 / 5),
            Line 10 50 50 50 (3602879701896397 / 36028797018963968),
            Arc 51 50 1 (1 / 5)])"
proof -
  have w1: "fl (9 + 1) = Some 10"
    using fl_eqI [of 3 "9 + 1" 5629499534213120] by simp
  have w2: "fl (50 + 0) = Some 50"
    using fl_eqI [of 5 "50 + 0" 7036874417766400] by simp
  have w3: "fl (1000 - 10) = Some 990"
    using fl_eqI [of 9 "1000 - 10" 8708132091985920] by simp
  have w4: "fl (50 - 50) = Some 0" by simp
  have w5: "fl (990 * 990) = Some 980100"
    using fl_eqI [of 19 "990 * 990" 8418994893619200] by simp
  have w6: "fl (0 * 0) = Some 0" by simp
  have w7: "fl (980100 + 0) = Some 980100"
    using fl_eqI [of 19 "980100 + 0" 8418994893619200] by simp
  have w8: "fl (sqrt 980100) = Some 990"
    using fl_sqrt_eqI [of 9 "980100" 8708132091985920] by (simp add: power2_eq_square)
  have w9: "fl (1 * 1) = Some 1"
    using fl_eqI [of 0 "1 * 1" 4503599627370496] by simp
  have w10: "fl (1 + 0) = Some 1"
    using fl_eqI [of 0 "1 + 0" 4503599627370496] by simp
  have w11: "fl (sqrt 1) = Some 1"
    using fl_sqrt_eqI [of 0 "1" 4503599627370496] by (simp add: power2_eq_square)
  have w12: "fl (10 - 50) = Some (- 40)"
    using fl_eqI [of 5 "10 - 50" "- 5629499534213120"] by simp
  have w13: "fl ((- 40) * (- 40)) = Some 1600"
    using fl_eqI [of 10 "(- 40) * (- 40)" 7036874417766400] by simp
  have w14: "fl (1600 + 0) = Some 1600"
    using fl_eqI [of 10 "1600 + 0" 7036874417766400] by simp
  have w15: "fl (sqrt 1600) = Some 40"
    using fl_sqrt_eqI [of 5 "1600" 5629499534213120] by (simp add: power2_eq_square)
  have w16: "fl (80 - 40) = Some 40"
    using fl_eqI [of 5 "80 - 40" 5629499534213120] by simp
  have w17: "fl (40 / 80) = Some (1 / 2)"
    using fl_eqI [of "- 1" "40 / 80" 4503599627370496] by simp
  have w18: "fl ((1 / 2) * (3602879701896397 / 18014398509481984)) = Some (3602879701896397 / 36028797018963968)"
    using fl_eqI [of "- 4" "(1 / 2) * (3602879701896397 / 18014398509481984)" 7205759403792794] by simp
  have w19: "fl (50 + 1) = Some 51"
    using fl_eqI [of 5 "50 + 1" 7177611906121728] by simp
  have w20: "fl (1000 - 51) = Some 949"
    using fl_eqI [of 9 "1000 - 51" 8347492278075392] by simp
  have w21: "fl (949 * 949) = Some 900601"
    using fl_eqI [of 19 "949 * 949" 7736103683489792] by simp
  have w22: "fl (900601 + 0) = Some 900601"
    using fl_eqI [of 19 "900601 + 0" 7736103683489792] by simp
  have w23: "fl (sqrt 900601) = Some 949"
    using fl_sqrt_eqI [of 9 "900601" 8347492278075392] by (simp add: power2_eq_square)
  show ?thesis
    using w1 w2 w3 w4 w5 w6 w7 w8 w9 w10 w11 w12 w13 w14 w15 w16 w17 w18 w19 w20 w21 w22 w23
    by (simp add: update_particle_double_def integrate_double_def reflect_double_def
        attract_double_def limit_speed_double_def sqrt_sum_squares_def connect_double_def
        distance_double_def opacity_double_def double_0_2_def)
qed

lemma distance_example_at_check:
  "distance_double
     \<lparr>p_x = 10, p_y = 50, p_vx = 1, p_vy = 0, p_size = 1, p_opacity = 1 / 2, p_color = 1 / 5\<rparr>
     \<lparr>p_x = 50, p_y = 50, p_vx = 1, p_vy = 0, p_size = 1, p_opacity = 1 / 2, p_color = 1 / 5\<rparr> = Some 40"
proof -
  have d1: "fl (10 - 50) = Some (- 40)"
    using fl_eqI [of 5 "10 - 50" "- 5629499534213120"] by simp
  have d2: "fl (50 - 50) = Some 0" by simp
  have d3: "fl ((- 40) * (- 40)) = Some 1600"
    using fl_eqI [of 10 "(- 40) * (- 40)" 7036874417766400] by simp
  have d4: "fl (0 * 0) = Some 0" by simp
  have d5: "fl (1600 + 0) = Some 1600"
    using fl_eqI [of 10 "1600 + 0" 7036874417766400] by simp
  have d6: "fl (sqrt 1600) = Some 40"
    using fl_sqrt_eqI [of 5 "1600" 5629499534213120] by (simp add: power2_eq_square)
  show ?thesis
    using d1 d2 d3 d4 d5 d6 by (simp add: distance_double_def sqrt_sum_squares_def)
qed

text \<open>
  Two particles less than 80 apart whose computed distance is 80: the sum of the squares
  rounds up to 6400.
\<close>

lemma threshold_example:
  "connect_double
     \<lparr>p_x = (5629499534213119 / 70368744177664), p_y = 0, p_vx = 0, p_vy = 0, p_size = 1, p_opacity = 1 / 2, p_color = 1 / 5\<rparr>
     \<lparr>p_x = 0, p_y = (23 / 33554432), p_vx = 0, p_vy = 0, p_size = 1, p_opacity = 1 / 2, p_color = 1 / 5\<rparr> = Some []"
proof -
  have r1: "fl ((5629499534213119 / 70368744177664) - 0) = Some (5629499534213119 / 70368744177664)"
    using fl_eqI [of 6 "(5629499534213119 / 70368744177664) - 0" 5629499534213119] by simp
  have r2: "fl (0 - (23 / 33554432)) = Some (- 23 / 33554432)"
    using fl_eqI [of "- 21" "0 - (23 / 33554432)" "- 6473924464345088"] by simp
  have r3: "fl ((5629499534213119 / 70368744177664) * (5629499534213119 / 70368744177664)) = Some (3518437208883199 / 549755813888)"
    using fl_eqI [of 12 "(5629499534213119 / 70368744177664) * (5629499534213119 / 70368744177664)" 7036874417766398] by simp
  have r4: "fl ((- 23 / 33554432) * (- 23 / 33554432)) = Some (529 / 1125899906842624)"
    using fl_eqI [of "- 41" "(- 23 / 33554432) * (- 23 / 33554432)" 4653133208748032] by simp
  have r5: "fl ((3518437208883199 / 549755813888) + (529 / 1125899906842624)) = Some (7036874417766399 / 1099511627776)"
    using fl_eqI [of 12 "(3518437208883199 / 549755813888) + (529 / 1125899906842624)" 7036874417766399] by simp
  have r6: "fl (sqrt (7036874417766399 / 1099511627776)) = Some 80"
    using fl_sqrt_eqI [of 6 "(7036874417766399 / 1099511627776)" 5629499534213120] by (simp add: power2_eq_square)
  show ?thesis
    using r1 r2 r3 r4 r5 r6
    by (simp add: connect_double_def distance_double_def sqrt_sum_squares_def)
qed

lemma threshold_example_distance:
  "sqrt (((5629499534213119 / 70368744177664) - 0) * ((5629499534213119 / 70368744177664) - 0) +
         (0 - (23 / 33554432)) * (0 - (23 / 33554432))) < 80"
  by (rule real_less_lsqrt) simp_all

text \<open>
  Claim C8, as stated, fails for the distance between two particles as a frame shows
  them. The check runs in the middle of the tick, between the particle that has just
  moved and a particle that has not moved yet. Two particles that move alike and are 40
  apart before the tick and 40 apart after it are 39 apart at the check, and the line
  between them has the opacity \<open>(80 - 39) / 80 * 0.2\<close>, which is not \<open>0.1\<close>. It fails for
  the exact distance at the threshold as well: the check compares the computed distance,
  and two particles at a distance below 80 that is computed as 80 get no line.
\<close>

theorem line_opacity_counterexample:
  "particles_forEach_double (1000, 50) 100 100
     [\<lparr>p_x = 10, p_y = 50, p_vx = 1, p_vy = 0, p_size = 1, p_opacity = 1 / 2, p_color = 1 / 5\<rparr>,
      \<lparr>p_x = 50, p_y = 50, p_vx = 1, p_vy = 0, p_size = 1, p_opacity = 1 / 2, p_color = 1 / 5\<rparr>]
   = Some ([\<lparr>p_x = 11, p_y = 50, p_vx = 1, p_vy = 0, p_size = 1, p_opacity = 1 / 2, p_color = 1 / 5\<rparr>,
            \<lparr>p_x = 51, p_y = 50, p_vx = 1, p_vy = 0, p_size = 1, p_opacity = 1 / 2, p_color = 1 / 5\<rparr>],
           [Arc 11 50 1 (1 / 5),
            Line 11 50 50 50 (7385903388887613 / 72057594037927936),
            Arc 51 50 1 (1 / 5)]) \<and>
   distance_double
     \<lparr>p_x = 10, p_y = 50, p_vx = 1, p_vy = 0, p_size = 1, p_opacity = 1 / 2, p_color = 1 / 5\<rparr>
     \<lparr>p_x = 50, p_y = 50, p_vx = 1, p_vy = 0, p_size = 1, p_opacity = 1 / 2, p_color = 1 / 5\<rparr> = Some 40 \<and>
   distance_double
     \<lparr>p_x = 11, p_y = 50, p_vx = 1, p_vy = 0, p_size = 1, p_opacity = 1 / 2, p_color = 1 / 5\<rparr>
     \<lparr>p_x = 51, p_y = 50, p_vx = 1, p_vy = 0, p_size = 1, p_opacity = 1 / 2, p_color = 1 / 5\<rparr> = Some 40 \<and>
   fl (1 / 10) = Some (3602879701896397 / 36028797018963968) \<and>
   ((7385903388887613 / 72057594037927936) :: real) \<noteq> (3602879701896397 / 36028797018963968) \<and>
   connect_double
     \<lparr>p_x = (5629499534213119 / 70368744177664), p_y = 0, p_vx = 0, p_vy = 0, p_size = 1, p_opacity = 1 / 2, p_color = 1 / 5\<rparr>
     \<lparr>p_x = 0, p_y = (23 / 33554432), p_vx = 0, p_vy = 0, p_size = 1, p_opacity = 1 / 2, p_color = 1 / 5\<rparr> = Some [] \<and>
   sqrt (((5629499534213119 / 70368744177664) - 0) * ((5629499534213119 / 70368744177664) - 0) +
         (0 - (23 / 33554432)) * (0 - (23 / 33554432))) < 80"
  using tick_example_40_apart distance_example_before distance_example_after double_of_tenth
    threshold_example threshold_example_distance
  by simp

text \<open>
  A frame on an object with these two particles: the second tick above, as the method
  runs it.
\<close>

lemma frame_example_40_at_check:
  "animateParticles_double
     \<lparr>isReducedMotion = False,
       particles = [\<lparr>p_x = 9, p_y = 50, p_vx = 1, p_vy = 0, p_size = 1, p_opacity = 1 / 2, p_color = 1 / 5\<rparr>,
                    \<lparr>p_x = 50, p_y = 50, p_vx = 1, p_vy = 0, p_size = 1, p_opacity = 1 / 2, p_color = 1 / 5\<rparr>],
       mouse = (1000, 50), canvas = Some (100, 100),
       drawn = [],
       animationFrames = 1, timeouts = [], listeners = [''mousemove'', ''resize''],
       customCursor = False, bodyCursor = [], observed = [],
       dom = \<lparr>prefersReducedMotion = False, innerWidth = 100, innerHeight = 100,
                random = (\<lambda>k. 1 / 2), nameElement = None, contactItems = [],
                cards = 0, buttons = 0, interactiveElements = 0, descriptions = []\<rparr> :: char page\<rparr>
   = Some (\<lparr>isReducedMotion = False,
       particles = [\<lparr>p_x = 10, p_y = 50, p_vx = 1, p_vy = 0, p_size = 1, p_opacity = 1 / 2, p_color = 1 / 5\<rparr>,
                    \<lparr>p_x = 51, p_y = 50, p_vx = 1, p_vy = 0, p_size = 1, p_opacity = 1 / 2, p_color = 1 / 5\<rparr>],
       mouse = (1000, 50), canvas = Some (100, 100),
       drawn = [ClearRect 0 0 100 100, Arc 10 50 1 (1 / 5),
                Line 10 50 50 50 (3602879701896397 / 36028797018963968),
                Arc 51 50 1 (1 / 5)],
       animationFrames = 2, timeouts = [], listeners = [''mousemove'', ''resize''],
       customCursor = False, bodyCursor = [], observed = [],
       dom = \<lparr>prefersReducedMotion = False, innerWidth = 100, innerHeight = 100,
                random = (\<lambda>k. 1 / 2), nameElement = None, contactItems = [],
                cards = 0, buttons = 0, interactiveElements = 0, descriptions = []\<rparr> :: char page\<rparr>, None)"
  using tick_example_40_at_check by (simp add: animateParticles_double_def)

text \<open>
  Claim C8, amended. Take one call of \<open>animateParticles\<close> without reduced motion, on a
  canvas, with its arithmetic in doubles; let \<open>ps\<close> be the particles before it and
  \<open>ps'\<close> the particles after it. If no operation overflows, the call throws nothing and
  updates every particle, and what it draws is: the cleared canvas, then for each
  particle \<open>i\<close> in turn its disc and, for each later particle \<open>j\<close> in turn, what the
  connection check of the pair draws. The check takes the distance \<open>d\<close>, computed in
  doubles as \<open>Math.sqrt(dx * dx + dy * dy)\<close>, from the updated particle \<open>i\<close> to the
  particle \<open>j\<close> as it was before the call. For \<open>d < 80\<close> it draws one line between these
  two positions, with the opacity \<open>(80 - d) / 80 * 0.2\<close> computed in doubles; for
  \<open>d \<ge> 80\<close> it draws nothing. Every line drawn joins such a pair with \<open>d < 80\<close>. No
  operation overflows when the coordinates and velocities of the particles and the
  coordinates of the mouse are at most \<open>2\<^sup>1\<^sup>0\<^sup>0\<close> in absolute value. The computed
  opacity differs from the exact \<open>(80 - d) / 80 * 0.2\<close> by at most 9 unit roundoffs, and
  at \<open>d = 40\<close> it is the double nearest to \<open>0.1\<close>.
\<close>

theorem tick_connecting_lines:
  assumes "\<not> isReducedMotion a" "canvas a = Some (cw, ch)"
  shows "(animateParticles_double a = Some (a', err) \<longrightarrow>
           err = None \<and>
           length (particles a') = length (particles a) \<and>
           (\<forall>i<length (particles a).
              update_particle_double (mouse a) cw ch (particles a ! i) = Some (particles a' ! i)) \<and>
           drawn a' = ClearRect 0 0 cw ch #
             concat (map (\<lambda>i. Arc (p_x (particles a' ! i)) (p_y (particles a' ! i))
                                (p_size (particles a' ! i)) (p_color (particles a' ! i)) #
                     concat (map (\<lambda>other. the (connect_double (particles a' ! i) other))
                               (drop (Suc i) (particles a))))
                   [0..<length (particles a)]) \<and>
           (\<forall>i j. i < j \<and> j < length (particles a) \<longrightarrow>
              (\<exists>d. distance_double (particles a' ! i) (particles a ! j) = Some d \<and>
                 0 \<le> d \<and>
                 (d < 80 \<longrightarrow> (\<exists>alpha. opacity_double d = Some alpha \<and>
                    connect_double (particles a' ! i) (particles a ! j) =
                      Some [Line (p_x (particles a' ! i)) (p_y (particles a' ! i))
                              (p_x (particles a ! j)) (p_y (particles a ! j)) alpha] \<and>
                    Line (p_x (particles a' ! i)) (p_y (particles a' ! i))
                      (p_x (particles a ! j)) (p_y (particles a ! j)) alpha \<in> set (drawn a'))) \<and>
                 (80 \<le> d \<longrightarrow> connect_double (particles a' ! i) (particles a ! j) = Some []))) \<and>
           (\<forall>x1 y1 x2 y2 alpha. Line x1 y1 x2 y2 alpha \<in> set (drawn a') \<longrightarrow>
              (\<exists>i j d. i < j \<and> j < length (particles a) \<and>
                 distance_double (particles a' ! i) (particles a ! j) = Some d \<and> d < 80 \<and>
                 opacity_double d = Some alpha \<and>
                 x1 = p_x (particles a' ! i) \<and> y1 = p_y (particles a' ! i) \<and>
                 x2 = p_x (particles a ! j) \<and> y2 = p_y (particles a ! j)))) \<and>
         (0 \<le> t \<and> t < 80 \<and> opacity_double t = Some beta \<longrightarrow>
            \<bar>beta - (80 - t) / 80 * (2 / 10)\<bar> \<le> 9 * unit_roundoff) \<and>
         (moderate (fst (mouse a)) \<and> moderate (snd (mouse a)) \<and>
          (\<forall>p\<in>set (particles a). moderate_particle p) \<longrightarrow>
            (\<exists>b. animateParticles_double a = Some (b, None))) \<and>
         opacity_double 40 = Some (3602879701896397 / 36028797018963968) \<and>
         fl (1 / 10) = Some (3602879701896397 / 36028797018963968)"
proof (intro conjI impI)
  show "opacity_double 40 = Some (3602879701896397 / 36028797018963968)" by (rule opacity_double_40)
  show "fl (1 / 10) = Some (3602879701896397 / 36028797018963968)" by (rule double_of_tenth)
next
  assume "0 \<le> t \<and> t < 80 \<and> opacity_double t = Some beta"
  then show "\<bar>beta - (80 - t) / 80 * (2 / 10)\<bar> \<le> 9 * unit_roundoff"
    using opacity_double_error [of t beta] by blast
next
  assume "moderate (fst (mouse a)) \<and> moderate (snd (mouse a)) \<and>
          (\<forall>p\<in>set (particles a). moderate_particle p)"
  then show "\<exists>b. animateParticles_double a = Some (b, None)"
    using animateParticles_double_defined [OF assms] by blast
next
  assume run: "animateParticles_double a = Some (a', err)"
  note T = animateParticles_double_tick [OF assms run]
  define ds where "ds = tl (drawn a')"
  have tick: "particles_forEach_double (mouse a) cw ch (particles a) = Some (particles a', ds)"
    using T by (simp add: ds_def)
  have dr: "drawn a' = ClearRect 0 0 cw ch # ds" using T by (simp add: ds_def)
  have mem: "Line x1 y1 x2 y2 alpha \<in> set (drawn a') \<longleftrightarrow> Line x1 y1 x2 y2 alpha \<in> set ds"
    for x1 y1 x2 y2 alpha
    by (simp add: dr)
  note S = particles_forEach_double_spec [OF tick]
  show "err = None" using T by blast
  show "length (particles a') = length (particles a)" using S by blast
  show "\<forall>i<length (particles a).
              update_particle_double (mouse a) cw ch (particles a ! i) = Some (particles a' ! i)"
    using S by blast
  show "drawn a' = ClearRect 0 0 cw ch #
             concat (map (\<lambda>i. Arc (p_x (particles a' ! i)) (p_y (particles a' ! i))
                                (p_size (particles a' ! i)) (p_color (particles a' ! i)) #
                     concat (map (\<lambda>other. the (connect_double (particles a' ! i) other))
                               (drop (Suc i) (particles a))))
                   [0..<length (particles a)])"
    unfolding dr using S by blast
  show "\<forall>i j. i < j \<and> j < length (particles a) \<longrightarrow>
              (\<exists>d. distance_double (particles a' ! i) (particles a ! j) = Some d \<and>
                 0 \<le> d \<and>
                 (d < 80 \<longrightarrow> (\<exists>alpha. opacity_double d = Some alpha \<and>
                    connect_double (particles a' ! i) (particles a ! j) =
                      Some [Line (p_x (particles a' ! i)) (p_y (particles a' ! i))
                              (p_x (particles a ! j)) (p_y (particles a ! j)) alpha] \<and>
                    Line (p_x (particles a' ! i)) (p_y (particles a' ! i))
                      (p_x (particles a ! j)) (p_y (particles a ! j)) alpha \<in> set (drawn a'))) \<and>
                 (80 \<le> d \<longrightarrow> connect_double (particles a' ! i) (particles a ! j) = Some []))"
    unfolding mem using S by blast
  show "\<forall>x1 y1 x2 y2 alpha. Line x1 y1 x2 y2 alpha \<in> set (drawn a') \<longrightarrow>
              (\<exists>i j d. i < j \<and> j < length (particles a) \<and>
                 distance_double (particles a' ! i) (particles a ! j) = Some d \<and> d < 80 \<and>
                 opacity_double d = Some alpha \<and>
                 x1 = p_x (particles a' ! i) \<and> y1 = p_y (particles a' ! i) \<and>
                 x2 = p_x (particles a ! j) \<and> y2 = p_y (particles a ! j))"
    unfolding mem using S by blast
qed

theorem tick_connecting_lines_witness:
  "(let a = \<lparr>isReducedMotion = False,
       particles = [\<lparr>p_x = 9, p_y = 50, p_vx = 1, p_vy = 0, p_size = 1, p_opacity = 1 / 2, p_color = 1 / 5\<rparr>,
                    \<lparr>p_x = 50, p_y = 50, p_vx = 1, p_vy = 0, p_size = 1, p_opacity = 1 / 2, p_color = 1 / 5\<rparr>],
       mouse = (1000, 50), canvas = Some (100, 100),
       drawn = [],
       animationFrames = 1, timeouts = [], listeners = [''mousemove'', ''resize''],
       customCursor = False, bodyCursor = [], observed = [],
       dom = \<lparr>prefersReducedMotion = False, innerWidth = 100, innerHeight = 100,
                random = (\<lambda>k. 1 / 2), nameElement = None, contactItems = [],
                cards = 0, buttons = 0, interactiveElements = 0, descriptions = []\<rparr> :: char page\<rparr>;
        a' = \<lparr>isReducedMotion = False,
       particles = [\<lparr>p_x = 10, p_y = 50, p_vx = 1, p_vy = 0, p_size = 1, p_opacity = 1 / 2, p_color = 1 / 5\<rparr>,
                    \<lparr>p_x = 51, p_y = 50, p_vx = 1, p_vy = 0, p_size = 1, p_opacity = 1 / 2, p_color = 1 / 5\<rparr>],
       mouse = (1000, 50), canvas = Some (100, 100),
       drawn = [ClearRect 0 0 100 100, Arc 10 50 1 (1 / 5),
                Line 10 50 50 50 (3602879701896397 / 36028797018963968),
                Arc 51 50 1 (1 / 5)],
       animationFrames = 2, timeouts = [], listeners = [''mousemove'', ''resize''],
       customCursor = False, bodyCursor = [], observed = [],
       dom = \<lparr>prefersReducedMotion = False, innerWidth = 100, innerHeight = 100,
                random = (\<lambda>k. 1 / 2), nameElement = None, contactItems = [],
                cards = 0, buttons = 0, interactiveElements = 0, descriptions = []\<rparr> :: char page\<rparr>
    in \<not> isReducedMotion a \<and> canvas a = Some (100, 100) \<and>
       moderate (fst (mouse a)) \<and> moderate (snd (mouse a)) \<and>
       (\<forall>p\<in>set (particles a). moderate_particle p) \<and>
       animateParticles_double a = Some (a', None) \<and>
       distance_double (particles a' ! 0) (particles a ! 1) = Some 40 \<and>
       (0::real) \<le> 40 \<and> (40::real) < 80 \<and>
       opacity_double 40 = Some (3602879701896397 / 36028797018963968) \<and>
       \<bar>(3602879701896397 / 36028797018963968) - (80 - 40) / 80 * (2 / 10)\<bar> \<le> 9 * unit_roundoff \<and>
       Line 10 50 50 50 (3602879701896397 / 36028797018963968) \<in> set (drawn a'))"
  using tick_connecting_lines
    [where a = "\<lparr>isReducedMotion = False,
       particles = [\<lparr>p_x = 9, p_y = 50, p_vx = 1, p_vy = 0, p_size = 1, p_opacity = 1 / 2, p_color = 1 / 5\<rparr>,
                    \<lparr>p_x = 50, p_y = 50, p_vx = 1, p_vy = 0, p_size = 1, p_opacity = 1 / 2, p_color = 1 / 5\<rparr>],
       mouse = (1000, 50), canvas = Some (100, 100),
       drawn = [],
       animationFrames = 1, timeouts = [], listeners = [''mousemove'', ''resize''],
       customCursor = False, bodyCursor = [], observed = [],
       dom = \<lparr>prefersReducedMotion = False, innerWidth = 100, innerHeight = 100,
                random = (\<lambda>k. 1 / 2), nameElement = None, contactItems = [],
                cards = 0, buttons = 0, interactiveElements = 0, descriptions = []\<rparr> :: char page\<rparr>"
      and cw = 100 and ch = 100
      and a' = "\<lparr>isReducedMotion = False,
       particles = [\<lparr>p_x = 10, p_y = 50, p_vx = 1, p_vy = 0, p_size = 1, p_opacity = 1 / 2, p_color = 1 / 5\<rparr>,
                    \<lparr>p_x = 51, p_y = 50, p_vx = 1, p_vy = 0, p_size = 1, p_opacity = 1 / 2, p_color = 1 / 5\<rparr>],
       mouse = (1000, 50), canvas = Some (100, 100),
       drawn = [ClearRect 0 0 100 100, Arc 10 50 1 (1 / 5),
                Line 10 50 50 50 (3602879701896397 / 36028797018963968),
                Arc 51 50 1 (1 / 5)],
       animationFrames = 2, timeouts = [], listeners = [''mousemove'', ''resize''],
       customCursor = False, bodyCursor = [], observed = [],
       dom = \<lparr>prefersReducedMotion = False, innerWidth = 100, innerHeight = 100,
                random = (\<lambda>k. 1 / 2), nameElement = None, contactItems = [],
                cards = 0, buttons = 0, interactiveElements = 0, descriptions = []\<rparr> :: char page\<rparr>"
      and err = None and t = 40 and beta = "(3602879701896397 / 36028797018963968)"]
    frame_example_40_at_check distance_example_at_check
  by (simp add: Let_def moderate_def moderate_particle_def)

subsection \<open>Reduced motion\<close>

lemma setupEssentialAnimations_undefined:
  "map_of CVAnimations_prototype ''setupEssentialAnimations'' = None"
  by (simp add: CVAnimations_prototype_def)

lemma reduced_motion_outcome:
  assumes "prefersReducedMotion pg"
  shows "new_CVAnimations pg =
     (\<lparr>isReducedMotion = True, particles = [], mouse = (0, 0),
       canvas = None, drawn = [], animationFrames = 0, timeouts = [], listeners = [],
       customCursor = False, bodyCursor = [], observed = [], dom = pg\<rparr>,
      Some (TypeError ''this.setupEssentialAnimations is not a function''))"
  using assms
  by (simp add: new_CVAnimations_def init_def call_method_def setupEssentialAnimations_undefined)

lemma particles_forEach_length: "length (fst (particles_forEach m cw ch ps)) = length ps"
  by (induction ps) (simp_all add: Let_def)

lemma call_method_known:
  "call_method ''setupParticleSystem'' a = setupParticleSystem a"
  "call_method ''setupTextAnimations'' a = setupTextAnimations a"
  "call_method ''setupHoverEffects'' a = setupHoverEffects a"
  "call_method ''setupCursorEffects'' a = setupCursorEffects a"
  "call_method ''setupScrollAnimations'' a = setupScrollAnimations a"
  "call_method ''setupTypingEffect'' a = setupTypingEffect a"
  by (simp_all add: call_method_def CVAnimations_prototype_def)

lemma and_then_ok: "snd r = None \<Longrightarrow> and_then r f = f (fst r)"
  by (simp add: and_then_def)

lemma setupParticleSystem_result:
  assumes "\<not> isReducedMotion a"
  shows "snd (setupParticleSystem a) = None"
    and "length (particles (fst (setupParticleSystem a))) =
           length (particles a) + nat (min 50 \<lfloor>innerWidth (dom a) / 20\<rfloor>)"
    and "animationFrames (fst (setupParticleSystem a)) = animationFrames a + 1"
    and "canvas (fst (setupParticleSystem a)) = Some (innerWidth (dom a), innerHeight (dom a))"
    and "dom (fst (setupParticleSystem a)) = dom a"
  using assms
  by (simp_all add: setupParticleSystem_def resizeCanvas_def createParticles_def
      animateParticles_def and_then_def Let_def particles_forEach_length)

lemma later_setup_ok:
  "snd (setupTextAnimations a) = None"
  "snd (setupHoverEffects a) = None"
  "snd (setupCursorEffects a) = None"
  "snd (setupScrollAnimations a) = None"
  "snd (setupTypingEffect a) = None"
  by (simp_all add: setupTextAnimations_def setupHoverEffects_def setupCursorEffects_def
      setupScrollAnimations_def setupTypingEffect_def Let_def)

lemma later_setup_particles:
  "particles (fst (setupTextAnimations a)) = particles a"
  "particles (fst (setupHoverEffects a)) = particles a"
  "particles (fst (setupCursorEffects a)) = particles a"
  "particles (fst (setupScrollAnimations a)) = particles a"
  "particles (fst (setupTypingEffect a)) = particles a"
  by (simp_all add: setupTextAnimations_def setupHoverEffects_def setupCursorEffects_def
      setupScrollAnimations_def setupTypingEffect_def Let_def split: option.split)

lemma later_setup_frames:
  "animationFrames (fst (setupTextAnimations a)) = animationFrames a"
  "animationFrames (fst (setupHoverEffects a)) = animationFrames a"
  "animationFrames (fst (setupCursorEffects a)) = animationFrames a"
  "animationFrames (fst (setupScrollAnimations a)) = animationFrames a"
  "animationFrames (fst (setupTypingEffect a)) = animationFrames a"
  by (simp_all add: setupTextAnimations_def setupHoverEffects_def setupCursorEffects_def
      setupScrollAnimations_def setupTypingEffect_def Let_def split: option.split)

text \<open>
  Without the preference the constructor returns, with the particles made and the
  first frame requested.
\<close>

lemma full_motion_outcome:
  assumes "\<not> prefersReducedMotion pg"
  shows "snd (new_CVAnimations pg) = None"
    and "length (particles (fst (new_CVAnimations pg))) = nat (min 50 \<lfloor>innerWidth pg / 20\<rfloor>)"
    and "animationFrames (fst (new_CVAnimations pg)) = 1"
  using assms
  by (simp_all add: new_CVAnimations_def init_def call_method_known and_then_ok
      setupParticleSystem_result later_setup_ok later_setup_particles later_setup_frames)

text \<open>
  Claim C9. With the reduced-motion preference set, \<open>init\<close> calls
  \<open>this.setupEssentialAnimations()\<close>, a name that no method of the class carries: the
  constructor throws a type error, and \<open>window.CVAnimations\<close> is never assigned.
\<close>

theorem reduced_motion_constructor_throws:
  assumes "prefersReducedMotion pg"
  shows "''setupEssentialAnimations'' \<notin> set CVAnimations_methods \<and>
         snd (new_CVAnimations pg) =
           Some (TypeError ''this.setupEssentialAnimations is not a function'') \<and>
         window_CVAnimations pg = None"
  using assms
  by (simp add: reduced_motion_outcome window_CVAnimations_def CVAnimations_methods_def)

theorem reduced_motion_constructor_throws_witness:
  "(let pg = \<lparr>prefersReducedMotion = True, innerWidth = 1200, innerHeight = 800,
              random = (\<lambda>k. 1 / 2),
              nameElement = Some \<lparr>textContent = ''Ana'', te_classList = [''name''],
                                   borderRight = []\<rparr>,
              contactItems = [\<lparr>st_opacity = [], st_transform = [], st_transition = []\<rparr>],
              cards = 2, buttons = 1, interactiveElements = 3, descriptions = []\<rparr> :: char page
    in prefersReducedMotion pg \<and>
       snd (new_CVAnimations pg) =
         Some (TypeError ''this.setupEssentialAnimations is not a function'') \<and>
       window_CVAnimations pg = None)"
  using reduced_motion_constructor_throws
    [of "\<lparr>prefersReducedMotion = True, innerWidth = 1200, innerHeight = 800,
              random = (\<lambda>k. 1 / 2),
              nameElement = Some \<lparr>textContent = ''Ana'', te_classList = [''name''],
                                   borderRight = []\<rparr>,
              contactItems = [\<lparr>st_opacity = [], st_transform = [], st_transition = []\<rparr>],
              cards = 2, buttons = 1, interactiveElements = 3, descriptions = []\<rparr> :: char page"]
  by (simp add: Let_def)

text \<open>
  Claim C6. With the reduced-motion preference set at initialisation, the object the
  constructor leaves behind has no particle, no canvas, no timer, no frame request, no
  event listener and no observed element, and the page is untouched: nothing it could
  later run from exists. (The constructor ends by the type error of claim C9, not by
  a setup method.) Under the preference \<open>typeWriter\<close> and \<open>typeText\<close> set no timer
  either.
\<close>

theorem reduced_motion_nothing_created:
  assumes "prefersReducedMotion pg"
  shows "particles (fst (new_CVAnimations pg)) = [] \<and>
         timeouts (fst (new_CVAnimations pg)) = [] \<and>
         animationFrames (fst (new_CVAnimations pg)) = 0 \<and>
         listeners (fst (new_CVAnimations pg)) = [] \<and>
         observed (fst (new_CVAnimations pg)) = [] \<and>
         canvas (fst (new_CVAnimations pg)) = None \<and>
         dom (fst (new_CVAnimations pg)) = pg \<and>
         snd (typeWriter True el str speed) = [] \<and>
         snd (typeText True el) = []"
  using assms
  by (simp add: reduced_motion_outcome typeWriter_def typeText_def)

theorem reduced_motion_nothing_created_witness:
  "(let pg = \<lparr>prefersReducedMotion = True, innerWidth = 1200, innerHeight = 800,
              random = (\<lambda>k. 1 / 2),
              nameElement = Some \<lparr>textContent = ''Ana'', te_classList = [''name''],
                                   borderRight = []\<rparr>,
              contactItems = [\<lparr>st_opacity = [], st_transform = [], st_transition = []\<rparr>],
              cards = 2, buttons = 1, interactiveElements = 3, descriptions = []\<rparr> :: char page
    in prefersReducedMotion pg \<and>
       particles (fst (new_CVAnimations pg)) = [] \<and>
       timeouts (fst (new_CVAnimations pg)) = [] \<and>
       listeners (fst (new_CVAnimations pg)) = [] \<and>
       animationFrames (fst (new_CVAnimations pg)) = 0)"
  using reduced_motion_nothing_created
    [where pg = "\<lparr>prefersReducedMotion = True, innerWidth = 1200, innerHeight = 800,
              random = (\<lambda>k. 1 / 2),
              nameElement = Some \<lparr>textContent = ''Ana'', te_classList = [''name''],
                                   borderRight = []\<rparr>,
              contactItems = [\<lparr>st_opacity = [], st_transform = [], st_transition = []\<rparr>],
              cards = 2, buttons = 1, interactiveElements = 3, descriptions = []\<rparr> :: char page"
       and el = "\<lparr>textContent = ''Ana'', te_classList = [''name''], borderRight = []\<rparr>"
       and str = "''Ana''" and speed = 100]
  by (simp add: Let_def)

subsection \<open>Typewriter round trip\<close>

lemma typeWriter_typing_text:
  "i \<le> length str \<Longrightarrow> textContent el = take i str \<Longrightarrow>
   textContent (fst (typeWriter_typing str speed i el)) = str"
proof (induction str speed i el rule: typeWriter_typing.induct)
  case (1 str speed i el)
  show ?case
  proof (cases "i < length str")
    case True
    have "textContent (el\<lparr>textContent := textContent el @ [str ! i]\<rparr>) = take (Suc i) str"
      using True "1.prems" by (simp add: take_Suc_conv_app_nth)
    with True "1.IH" have
      "textContent (fst (typeWriter_typing str speed (Suc i)
          (el\<lparr>textContent := textContent el @ [str ! i]\<rparr>))) = str"
      by simp
    with True show ?thesis
      by (subst typeWriter_typing.simps) (simp add: Let_def)
  next
    case False
    with "1.prems" have "textContent el = str" by simp
    with False show ?thesis
      by (subst typeWriter_typing.simps) (simp add: te_classList_add_def)
  qed
qed

lemma typeText_typing_text:
  "i \<le> length str \<Longrightarrow> textContent el = take i str \<Longrightarrow>
   textContent (fst (typeText_typing str speed i el)) = str"
proof (induction str speed i el rule: typeText_typing.induct)
  case (1 str speed i el)
  show ?case
  proof (cases "i < length str")
    case True
    have "textContent (el\<lparr>textContent := textContent el @ [str ! i]\<rparr>) = take (Suc i) str"
      using True "1.prems" by (simp add: take_Suc_conv_app_nth)
    with True "1.IH" have
      "textContent (fst (typeText_typing str speed (Suc i)
          (el\<lparr>textContent := textContent el @ [str ! i]\<rparr>))) = str"
      by simp
    with True show ?thesis
      by (subst typeText_typing.simps) (simp add: Let_def)
  next
    case False
    with "1.prems" have "textContent el = str" by simp
    with False show ?thesis
      by (subst typeText_typing.simps) simp
  qed
qed

text \<open>
  Claim C10. Both typewriter effects are round trips on the text content: when
  \<open>typeWriter\<close> has run to the end of its timer chain the element holds the text it was
  given (at its call site, the element's own text), and when \<open>typeText\<close> has run to the
  end the element holds the text it held at the start. This holds with and without the
  reduced-motion preference, with no other code writing the element in between.
\<close>

theorem typewriter_round_trip:
  "textContent (fst (typeWriter rm el text speed)) = text \<and>
   textContent (fst (typeWriter rm el (textContent el) speed)) = textContent el \<and>
   textContent (fst (typeText rm el)) = textContent el"
  by (simp add: typeWriter_def typeText_def Let_def typeWriter_typing_text typeText_typing_text)

section \<open>Properties of the navigation controller\<close>

subsection \<open>Document lemmas\<close>

lemma find_index_Some: "find_index P xs = Some i \<Longrightarrow> i < length xs \<and> P (xs ! i)"
  by (induction xs arbitrary: i) (auto split: if_splits)

lemma find_index_None: "find_index P xs = None \<Longrightarrow> i < length xs \<Longrightarrow> \<not> P (xs ! i)"
  by (induction xs arbitrary: i) (auto split: if_splits simp: nth_Cons split: nat.splits)

lemma find_index_map: "find_index (\<lambda>x. P (f x)) xs = find_index P (map f xs)"
  by (induction xs) simp_all

lemma getElementById_ids:
  "map elem_id d' = map elem_id d \<Longrightarrow> getElementById s d' = getElementById s d"
  by (simp add: getElementById_def find_index_map [where f = elem_id and P = "\<lambda>y. y = s"])

lemma map_update_same:
  assumes "f x = f (xs ! i)"
  shows "map f (xs[i := x]) = map f xs"
proof (cases "i < length xs")
  case True
  with assms show ?thesis by (simp add: map_update list_update_same_conv)
next
  case False
  then have "length xs \<le> i" by simp
  then show ?thesis by (simp add: list_update_beyond)
qed

lemma matches_classes: "classList e' = classList e \<Longrightarrow> matches cs e' = matches cs e"
  by (simp add: matches_def has_class_def)

lemma section_active_iff:
  "matches [''section'', ''active''] e = (has_class ''section'' e \<and> has_class ''active'' e)"
  by (simp add: matches_def)

lemma active_sections_empty:
  "(active_sections d = []) = (\<forall>i<length d. \<not> matches [''section'', ''active''] (d ! i))"
  by (auto simp add: active_sections_def filter_empty_conv)

lemma active_sections_unique:
  assumes "length (active_sections d) \<le> 1"
    and "i < length d" "matches [''section'', ''active''] (d ! i)"
    and "j < length d" "matches [''section'', ''active''] (d ! j)"
  shows "i = j"
proof -
  have "i \<in> set (active_sections d)" "j \<in> set (active_sections d)"
    using assms by (simp_all add: active_sections_def)
  with assms(1) show ?thesis
    by (cases "active_sections d") auto
qed

lemma filter_eq_upt: "t < n \<Longrightarrow> filter (\<lambda>i. i = t) [0..<n] = [t]"
  by (induction n) (auto simp: less_Suc_eq filter_empty_conv)

lemma active_sections_single:
  assumes "t < length d" "matches [''section'', ''active''] (d ! t)"
    and "\<And>i. i < length d \<Longrightarrow> i \<noteq> t \<Longrightarrow> \<not> matches [''section'', ''active''] (d ! i)"
  shows "active_sections d = [t]"
proof -
  have "filter (\<lambda>i. matches [''section'', ''active''] (d ! i)) [0..<length d]
          = filter (\<lambda>i. i = t) [0..<length d]"
    using assms by (intro filter_cong) auto
  also have "\<dots> = [t]"
    using assms(1) by (rule filter_eq_upt)
  finally show ?thesis by (simp add: active_sections_def)
qed

lemma classList_add_fields [simp]:
  "elem_id (classList_add c e) = elem_id e"
  "parentNode (classList_add c e) = parentNode e"
  "data_width (classList_add c e) = data_width e"
  by (simp_all add: classList_add_def)

lemma classList_remove_fields [simp]:
  "elem_id (classList_remove c e) = elem_id e"
  "parentNode (classList_remove c e) = parentNode e"
  "data_width (classList_remove c e) = data_width e"
  by (simp_all add: classList_remove_def)

lemma has_class_add [simp]: "has_class c (classList_add c' e) = (c = c' \<or> has_class c e)"
  by (auto simp add: has_class_def classList_add_def)

lemma has_class_remove [simp]: "has_class c (classList_remove c' e) = (c \<noteq> c' \<and> has_class c e)"
  by (auto simp add: has_class_def classList_remove_def)

text \<open>The first half of \<open>showSection\<close>: the first active section loses the marker.\<close>

lemma hide_current_none_active:
  assumes "length (active_sections d) \<le> 1"
    and "d1 = (case querySelector [''section'', ''active''] d of
                 None \<Rightarrow> d
               | Some c \<Rightarrow> d[c := classList_remove ''active'' (d ! c)])"
    and "i < length d1"
  shows "\<not> matches [''section'', ''active''] (d1 ! i)"
proof (cases "querySelector [''section'', ''active''] d")
  case None
  with assms show ?thesis
    by (simp add: querySelector_def find_index_None)
next
  case (Some c)
  then have c: "c < length d" "matches [''section'', ''active''] (d ! c)"
    by (simp_all add: querySelector_def find_index_Some)
  from Some assms(2) have d1: "d1 = d[c := classList_remove ''active'' (d ! c)]" by simp
  show ?thesis
  proof (cases "i = c")
    case True
    with d1 c show ?thesis by (simp add: section_active_iff)
  next
    case False
    with d1 assms(3) have "d1 ! i = d ! i" "i < length d" by simp_all
    with False active_sections_unique [OF assms(1) _ _ c] show ?thesis by auto
  qed
qed

lemma updateURL_doc:
  "map classList (doc (updateURL st s)) = map classList (doc st)"
  "map elem_id (doc (updateURL st s)) = map elem_id (doc st)"
  "currentSection (updateURL st s) = currentSection st"
  by (simp_all add: updateURL_def Let_def map_update_same split: option.split)

lemma animateSection_doc [simp]:
  "doc (animateSection st t) = doc st"
  "currentSection (animateSection st t) = currentSection st"
  by (simp_all add: animateSection_def Let_def)

lemma same_classes_active_sections:
  assumes "map classList d' = map classList d"
  shows "active_sections d' = active_sections d"
proof -
  have len: "length d' = length d" using assms by (metis length_map)
  have "\<And>i. i < length d \<Longrightarrow> classList (d' ! i) = classList (d ! i)"
    using assms len by (metis nth_map)
  then have "\<And>i. i < length d \<Longrightarrow>
      matches [''section'', ''active''] (d' ! i) = matches [''section'', ''active''] (d ! i)"
    by (rule matches_classes)
  then show ?thesis
    unfolding active_sections_def len
    by (intro filter_cong) auto
qed

lemma same_ids_nth:
  assumes "map elem_id d' = map elem_id d" "i < length d"
  shows "elem_id (d' ! i) = elem_id (d ! i)"
  using assms by (metis length_map nth_map)

lemma showSection_keeps_at_most_one:
  assumes one: "length (active_sections (doc st)) \<le> 1"
  shows "length (active_sections (doc (showSection st S))) \<le> 1"
proof -
  define d where "d = doc st"
  define d1 where "d1 = (case querySelector [''section'', ''active''] d of
                 None \<Rightarrow> d
               | Some c \<Rightarrow> d[c := classList_remove ''active'' (d ! c)])"
  define st1 where "st1 = (case querySelector [''section'', ''active''] (doc st) of
                   None \<Rightarrow> st
                 | Some current \<Rightarrow>
                     st\<lparr>doc := (doc st)[current :=
                            classList_remove ''active'' (doc st ! current)]\<rparr>)"
  have doc1: "doc st1 = d1"
    by (simp add: st1_def d1_def d_def split: option.split)
  have none1: "\<And>i. i < length d1 \<Longrightarrow> \<not> matches [''section'', ''active''] (d1 ! i)"
    using hide_current_none_active [OF one [folded d_def] d1_def] by blast
  show ?thesis
  proof (cases "getElementById S d1")
    case None
    then have "showSection st S = st1"
      by (simp add: showSection_def st1_def [symmetric] doc1)
    moreover have "active_sections d1 = []"
      using none1 by (simp add: active_sections_empty)
    ultimately show ?thesis by (simp add: doc1)
  next
    case (Some t)
    define d2 where "d2 = d1[t := classList_add ''active'' (d1 ! t)]"
    have eq: "showSection st S =
        updateURL (animateSection (st1\<lparr>doc := d2, currentSection := S\<rparr>) t) S"
      using Some by (simp add: showSection_def st1_def [symmetric] doc1 d2_def)
    have others: "\<not> matches [''section'', ''active''] (d2 ! i)" if "i < length d2" "i \<noteq> t" for i
      using that none1 [of i] by (simp add: d2_def)
    have "length (active_sections d2) \<le> 1"
    proof (cases "t < length d2 \<and> matches [''section'', ''active''] (d2 ! t)")
      case True
      then have "active_sections d2 = [t]"
        using others by (intro active_sections_single) auto
      then show ?thesis by simp
    next
      case False
      then have "active_sections d2 = []"
        using others by (auto simp add: active_sections_empty)
      then show ?thesis by simp
    qed
    then show ?thesis
      using same_classes_active_sections [OF updateURL_doc(1)] by (simp add: eq)
  qed
qed

subsection \<open>Navigation to a section\<close>

text \<open>
  Claim C1. Let \<open>S\<close> be the id of a section of the document (\<open>getElementById\<close> finds
  the element \<open>t\<close>, which carries the class \<open>section\<close>), in a document where at most one
  section is active, as the data model has it and as \<open>showSection\<close> keeps it. After
  \<open>showSection(S)\<close> exactly one section carries the class \<open>active\<close>, it is \<open>t\<close>, its id
  is \<open>S\<close>, and \<open>S\<close> is the recorded current section.
\<close>

theorem showSection_activates:
  assumes target: "getElementById S (doc st) = Some t"
    and is_section: "has_class ''section'' (doc st ! t)"
    and one: "length (active_sections (doc st)) \<le> 1"
  shows "active_sections (doc (showSection st S)) = [t] \<and>
         elem_id (doc (showSection st S) ! t) = S \<and>
         currentSection (showSection st S) = S"
proof -
  define d where "d = doc st"
  define d1 where "d1 = (case querySelector [''section'', ''active''] d of
                 None \<Rightarrow> d
               | Some c \<Rightarrow> d[c := classList_remove ''active'' (d ! c)])"
  define st1 where "st1 = (case querySelector [''section'', ''active''] (doc st) of
                   None \<Rightarrow> st
                 | Some current \<Rightarrow>
                     st\<lparr>doc := (doc st)[current :=
                            classList_remove ''active'' (doc st ! current)]\<rparr>)"
  have doc1: "doc st1 = d1"
    by (simp add: st1_def d1_def d_def split: option.split)
  have cur1: "currentSection st1 = currentSection st"
    by (simp add: st1_def split: option.split)
  have len1: "length d1 = length d"
    by (simp add: d1_def split: option.split)
  have ids1: "map elem_id d1 = map elem_id d"
    by (simp add: d1_def map_update_same split: option.split)
  have t: "t < length d" "elem_id (d ! t) = S"
    using target find_index_Some [of "\<lambda>e. elem_id e = S" d t]
    by (auto simp add: getElementById_def d_def split: if_splits)
  have target1: "getElementById S d1 = Some t"
    using target getElementById_ids [OF ids1] by (simp add: d_def)
  have none1: "\<And>i. i < length d1 \<Longrightarrow> \<not> matches [''section'', ''active''] (d1 ! i)"
    using hide_current_none_active [OF one [folded d_def] d1_def] by blast
  have sec1: "has_class ''section'' (d1 ! t)"
  proof (cases "querySelector [''section'', ''active''] d")
    case None
    then show ?thesis using is_section by (simp add: d1_def d_def)
  next
    case (Some c)
    then show ?thesis
      using is_section t by (cases "t = c") (simp_all add: d1_def d_def)
  qed
  define d2 where "d2 = d1[t := classList_add ''active'' (d1 ! t)]"
  have "active_sections d2 = [t]"
  proof (rule active_sections_single)
    show "t < length d2" using t len1 by (simp add: d2_def)
    show "matches [''section'', ''active''] (d2 ! t)"
      using t len1 sec1 by (simp add: d2_def section_active_iff)
    show "\<not> matches [''section'', ''active''] (d2 ! i)" if "i < length d2" "i \<noteq> t" for i
      using that none1 [of i] by (simp add: d2_def)
  qed
  moreover have "elem_id (d2 ! t) = S"
    using t len1 same_ids_nth [OF ids1 t(1)] by (simp add: d2_def)
  moreover have show_eq: "showSection st S =
      updateURL (animateSection (st1\<lparr>doc := d2, currentSection := S\<rparr>) t) S"
    using target1 by (simp add: showSection_def st1_def [symmetric] doc1 d2_def)
  ultimately show ?thesis
    using same_classes_active_sections [OF updateURL_doc(1)]
      same_ids_nth [OF updateURL_doc(2), of t] t len1
    by (simp add: updateURL_doc(3) d2_def)
qed

theorem showSection_activates_witness:
  "(let st = new_CVApp [new_element ''perfil'' [''section'', ''active''] None,
                        new_element ''experiencia'' [''section''] None] ''/cv/'' True
    in getElementById ''experiencia'' (doc st) = Some 1 \<and>
       has_class ''section'' (doc st ! 1) \<and>
       active_sections (doc st) = [0] \<and>
       active_sections (doc (showSection st ''experiencia'')) = [1] \<and>
       currentSection (showSection st ''experiencia'') = ''experiencia'')"
proof -
  define st where "st = new_CVApp [new_element ''perfil'' [''section'', ''active''] None,
                        new_element ''experiencia'' [''section''] None] ''/cv/'' True"
  have h1: "getElementById ''experiencia'' (doc st) = Some 1"
    unfolding st_def by code_simp
  have h2: "has_class ''section'' (doc st ! 1)"
    unfolding st_def by code_simp
  have h3: "active_sections (doc st) = [0]"
    unfolding st_def by code_simp
  have h4: "length (active_sections (doc st)) \<le> 1"
    using h3 by simp
  show ?thesis
    using h1 h2 h3 showSection_activates [OF h1 h2 h4]
    by (simp add: st_def [symmetric] Let_def)
qed

text \<open>
  Claim C2 fails on the code: \<open>showSection\<close> takes the marker off the active section
  before it looks the target up. On a page with the sections \<open>perfil\<close> (active) and
  \<open>experiencia\<close>, \<open>showSection('contacto')\<close> finds no element and leaves no section
  active; the recorded current section and the URL stay as they were.
\<close>

theorem showSection_unknown_id_hides_current:
  "(let st = new_CVApp [new_element ''perfil'' [''section'', ''active''] None,
                        new_element ''experiencia'' [''section''] None] ''/cv/'' True
    in active_sections (doc st) = [0] \<and>
       getElementById ''contacto'' (doc st) = None \<and>
       active_sections (doc (showSection st ''contacto'')) = [] \<and>
       currentSection (showSection st ''contacto'') = currentSection st \<and>
       url (showSection st ''contacto'') = url st)"
  by code_simp

subsection \<open>Resize and the mobile menu\<close>

lemma adjust_keeps_class:
  assumes "c \<noteq> ''fade-in''" "c \<noteq> ''slide-in-right''" "c \<noteq> ''slide-in-left''"
  shows "has_class c (foldl (\<lambda>d item. d[item := classList_add ''fade-in''
                       (classList_remove ''slide-in-right''
                         (classList_remove ''slide-in-left'' (d ! item)))]) d items ! m)
         = has_class c (d ! m)"
proof (induction items arbitrary: d)
  case Nil
  show ?case by simp
next
  case (Cons item items)
  have "has_class c (d[item := classList_add ''fade-in''
                       (classList_remove ''slide-in-right''
                         (classList_remove ''slide-in-left'' (d ! item)))] ! m)
        = has_class c (d ! m)"
  proof (cases "item < length d")
    case True
    with assms show ?thesis by (cases "m = item") simp_all
  next
    case False
    then have "length d \<le> item" by simp
    then show ?thesis by (simp add: list_update_beyond)
  qed
  with Cons.IH show ?case by simp
qed

lemma closeMobileMenu_result:
  assumes "navMenu st = Some m" "menuToggle st = Some t" "m < length (doc st)"
  shows "snd (closeMobileMenu st) = None"
    and "\<not> isMenuOpen (fst (closeMobileMenu st))"
    and "\<not> has_class ''active'' (doc (fst (closeMobileMenu st)) ! m)"
  using assms
  by (simp_all add: closeMobileMenu_def Let_def nth_list_update has_class_def
      classList_remove_def)

text \<open>
  Claim C7, as stated, fails: the handler closes the menu only when the new inner
  width is above 768. With the menu open, a resize to 600 leaves \<open>isMenuOpen\<close> true
  and the class \<open>active\<close> on the menu.
\<close>

theorem resize_to_600_counterexample:
  "(let st = run (new_CVApp [new_element ''perfil'' [''section'', ''active''] None,
                             new_element [] [''nav-menu''] None,
                             new_element ''menuToggle'' [] None] ''/cv/'' True) [ToggleMenu]
    in isMenuOpen st \<and> navMenu st = Some 1 \<and> has_class ''active'' (doc st ! 1) \<and>
       isMenuOpen (fst (handleResize st 600)) \<and>
       has_class ''active'' (doc (fst (handleResize st 600)) ! 1))"
  by code_simp

text \<open>
  Claim C7, amended. With the mobile menu open (menu and toggle present in the page):
  a resize to a width above 768 closes the menu, \<open>isMenuOpen\<close> becomes false and the
  menu loses the class \<open>active\<close>; a resize to a width of at most 768, such as 600,
  leaves the menu open and its class \<open>active\<close> as it was.
\<close>

theorem handleResize_menu:
  assumes "isMenuOpen st" "navMenu st = Some m" "menuToggle st = Some t" "m < length (doc st)"
  shows "(768 < w \<longrightarrow>
            snd (handleResize st w) = None \<and>
            \<not> isMenuOpen (fst (handleResize st w)) \<and>
            \<not> has_class ''active'' (doc (fst (handleResize st w)) ! m)) \<and>
         (w \<le> 768 \<longrightarrow>
            snd (handleResize st w) = None \<and>
            isMenuOpen (fst (handleResize st w)) \<and>
            has_class ''active'' (doc (fst (handleResize st w)) ! m)
              = has_class ''active'' (doc st ! m))"
proof (cases "768 < w")
  case True
  then show ?thesis
    using assms closeMobileMenu_result [OF assms(2,3,4)]
    by (simp add: handleResize_def recalculateAnimations_def Let_def)
next
  case False
  then show ?thesis
    using assms
    by (simp add: handleResize_def recalculateAnimations_def adjustMobileAnimations_def
        Let_def adjust_keeps_class)
qed

theorem handleResize_menu_witness:
  "(let st = run (new_CVApp [new_element ''perfil'' [''section'', ''active''] None,
                             new_element [] [''nav-menu''] None,
                             new_element ''menuToggle'' [] None] ''/cv/'' True) [ToggleMenu]
    in isMenuOpen st \<and> navMenu st = Some 1 \<and> menuToggle st = Some 2 \<and>
       1 < length (doc st) \<and>
       \<not> isMenuOpen (fst (handleResize st 1200)) \<and>
       \<not> has_class ''active'' (doc (fst (handleResize st 1200)) ! 1) \<and>
       isMenuOpen (fst (handleResize st 600)))"
proof -
  define st where "st = run (new_CVApp [new_element ''perfil'' [''section'', ''active''] None,
                             new_element [] [''nav-menu''] None,
                             new_element ''menuToggle'' [] None] ''/cv/'' True) [ToggleMenu]"
  have h1: "isMenuOpen st" unfolding st_def by code_simp
  have h2: "navMenu st = Some 1" unfolding st_def by code_simp
  have h3: "menuToggle st = Some 2" unfolding st_def by code_simp
  have h4: "1 < length (doc st)" unfolding st_def by code_simp
  show ?thesis
    using h1 h2 h3 h4 handleResize_menu [OF h1 h2 h3 h4, of 1200]
      handleResize_menu [OF h1 h2 h3 h4, of 600]
    by (simp add: st_def [symmetric] Let_def)
qed

subsection \<open>Reveal animations\<close>







lemma scheduled_pending: "pending st' = pending st \<Longrightarrow> scheduled st' e = scheduled st e"
  by (simp add: scheduled_def)


































end
